theory Spec2Isabelle
  imports Main "HOL-Library.Word"
begin

section \<open>The GCS block backend of friggdb (friggdb/backend/gcs/gcs.go)\<close>

text \<open>
  The backend stores a block as four objects of a bucket, under keys derived from the
  tenant and the block identifier. This theory embeds the key derivation, \<open>Write\<close>,
  the two listings and the readers, and proves or refutes the properties the design
  document states about them.
\<close>

subsection \<open>Bytes, identifiers and keys\<close>

type_synonym byte = "8 word"
type_synonym bytes = "byte list"

text \<open>Go's \<open>uuid.UUID\<close> is \<open>[16]byte\<close>: 128 bits, the first byte the most significant.\<close>

type_synonym uuid = "128 word"

definition hextable :: string where
  "hextable = ''0123456789abcdef''"

text \<open>\<open>hex.Encode\<close>: two digits per byte, \<open>hextable[v>>4]\<close> then \<open>hextable[v&0x0f]\<close>.\<close>

definition hex_Encode :: "bytes \<Rightarrow> string" where
  "hex_Encode src = concat (map (\<lambda>v. [hextable ! (unat v div 16), hextable ! (unat v mod 16)]) src)"

definition uuid_bytes :: "uuid \<Rightarrow> bytes" where
  "uuid_bytes u = map (\<lambda>i. ucast (drop_bit (8 * (15 - i)) u)) [0..<16]"

text \<open>\<open>UUID.String\<close>: the form \<open>xxxxxxxx-xxxx-xxxx-xxxx-xxxxxxxxxxxx\<close>.\<close>

definition uuid_String :: "uuid \<Rightarrow> string" where
  "uuid_String u =
     (let b = uuid_bytes u in
        hex_Encode (take 4 b) @ ''-'' @
        hex_Encode (take 2 (drop 4 b)) @ ''-'' @
        hex_Encode (take 2 (drop 6 b)) @ ''-'' @
        hex_Encode (take 2 (drop 8 b)) @ ''-'' @
        hex_Encode (drop 10 b))"

text \<open>
  \<open>path.Join\<close> and \<open>path.Clean\<close> of the Go standard library. \<open>Clean\<close> works on the
  elements between slashes: empty elements and \<open>.\<close> are dropped, \<open>..\<close> removes the element
  before it when there is one to remove, is dropped at the root of a rooted path and is
  kept otherwise; an empty result is \<open>.\<close>. Splitting a string at its slashes always gives
  at least one element, so the first case in \<open>split_slash\<close> is never taken.
\<close>

fun split_slash :: "string \<Rightarrow> string list" where
  "split_slash [] = [[]]"
| "split_slash (c # cs) =
     (case split_slash cs of
        [] \<Rightarrow> [[c]]
      | e # es \<Rightarrow> if c = CHR ''/'' then [] # e # es else (c # e) # es)"

fun join_slash :: "string list \<Rightarrow> string" where
  "join_slash [] = []"
| "join_slash [x] = x"
| "join_slash (x # y # ys) = x @ ''/'' @ join_slash (y # ys)"

definition clean_elem :: "bool \<Rightarrow> string list \<Rightarrow> string \<Rightarrow> string list" where
  "clean_elem rooted out e =
     (if e = ''..'' then
        (if out \<noteq> [] \<and> last out \<noteq> ''..'' then butlast out
         else if rooted then out
         else out @ [''..''])
      else out @ [e])"

definition path_Clean :: "string \<Rightarrow> string" where
  "path_Clean p =
     (if p = [] then ''.''
      else
        let rooted = (hd p = CHR ''/'');
            elems = filter (\<lambda>e. e \<noteq> [] \<and> e \<noteq> ''.'') (split_slash p);
            out = foldl (clean_elem rooted) [] elems;
            s = (if rooted then ''/'' else []) @ join_slash out
        in if s = [] then ''.'' else s)"

text \<open>\<open>path.Join\<close> ignores leading empty elements and cleans the rest joined by slashes.\<close>

definition path_Join :: "string list \<Rightarrow> string" where
  "path_Join elem =
     (case dropWhile (\<lambda>e. e = []) elem of
        [] \<Rightarrow> []
      | es \<Rightarrow> path_Clean (join_slash es))"

definition rootPath :: "uuid \<Rightarrow> string \<Rightarrow> string" where
  "rootPath blockID tenantID = path_Join [tenantID, uuid_String blockID]"

definition metaFileName :: "uuid \<Rightarrow> string \<Rightarrow> string" where
  "metaFileName blockID tenantID = path_Join [rootPath blockID tenantID, ''meta.json'']"

definition bloomFileName :: "uuid \<Rightarrow> string \<Rightarrow> string" where
  "bloomFileName blockID tenantID = path_Join [rootPath blockID tenantID, ''bloom'']"

definition indexFileName :: "uuid \<Rightarrow> string \<Rightarrow> string" where
  "indexFileName blockID tenantID = path_Join [rootPath blockID tenantID, ''index'']"

definition objectFileName :: "uuid \<Rightarrow> string \<Rightarrow> string" where
  "objectFileName blockID tenantID = path_Join [rootPath blockID tenantID, ''data'']"

subsection \<open>Errors\<close>

text \<open>
  Errors handed back by the collaborators (the storage client, \<open>encoding/json\<close>,
  \<open>uuid.Parse\<close>) are opaque values; those of the file system are told apart by
  \<open>os.IsNotExist\<close>. The two errors the backend builds itself with \<open>fmt.Errorf\<close> carry
  the values they format. \<open>SliceBounds\<close> is the run-time panic of a slice expression whose
  low index lies beyond the slice.
\<close>

datatype ext_error = ErrObjectNotExist | ExtError string

datatype os_error = ErrNotExist | ErrPermission | ErrOsOther string

datatype error =
    External ext_error
  | Os os_error
  | ObjectFileNotFound string
  | FailedParse string ext_error
  | SliceBounds

fun os_IsNotExist :: "os_error option \<Rightarrow> bool" where
  "os_IsNotExist None = False"
| "os_IsNotExist (Some ErrNotExist) = True"
| "os_IsNotExist (Some _) = False"

subsection \<open>The bucket, the file system and the calls made on them\<close>

text \<open>
  The collaborators are a parameter of every operation: which \<open>Writer.Write\<close> fails,
  what \<open>os.Stat\<close> and \<open>os.Open\<close> answer for a path (an opened file delivers its bytes
  and then ends with \<open>io.EOF\<close> or with a read error), what \<open>json.Marshal\<close> and
  \<open>json.Unmarshal\<close> return, which readers fail, and which uploads fail when their writer
  is closed.
\<close>

record 'm env =
  write_fault :: "string \<Rightarrow> ext_error option"
  stat_err :: "string \<Rightarrow> os_error option"
  open_file :: "string \<Rightarrow> os_error + (bytes \<times> os_error option)"
  marshal :: "'m \<Rightarrow> ext_error + bytes"
  unmarshal :: "bytes \<Rightarrow> ext_error + 'm"
  reader_fault :: "string \<Rightarrow> ext_error option"
  readall_fault :: "string \<Rightarrow> (nat \<times> ext_error) option"
  close_fault :: "string \<Rightarrow> ext_error option"

datatype call =
    CallNewWriter string
  | CallWrite string bytes
  | CallClose string
  | CallStat string
  | CallOpen string
  | CallFileRead string
  | CallFileClose string
  | CallMarshal

text \<open>
  The state is the bucket's objects together with the sequence of calls made so far.
  An object of the bucket comes into being when its writer is closed (the storage client
  completes the upload in \<open>Close\<close>): \<open>Writer.Write\<close> only hands bytes to the writer.
  \<open>Writer.Close\<close> returns the error of the upload: that of a write that failed before, or
  the one the upload ends with; in both cases no object is created. The source calls
  \<open>Close\<close> in \<open>defer\<close> statements, which discard what it returns.
\<close>

record store =
  objects :: "string \<rightharpoonup> bytes"
  calls :: "call list"

record writer_state =
  w_name :: string
  w_data :: bytes
  w_err :: "ext_error option"

definition called :: "call \<Rightarrow> store \<Rightarrow> store" where
  "called c s = s\<lparr>calls := calls s @ [c]\<rparr>"

text \<open>\<open>rw.writer\<close>: a new writer on the object (its chunk size has no effect on what is stored).\<close>

definition writer :: "string \<Rightarrow> store \<Rightarrow> writer_state \<times> store" where
  "writer name s = (\<lparr>w_name = name, w_data = [], w_err = None\<rparr>, called (CallNewWriter name) s)"

definition Writer_Write :: "'m env \<Rightarrow> writer_state \<Rightarrow> bytes \<Rightarrow> store \<Rightarrow> ext_error option \<times> writer_state \<times> store" where
  "Writer_Write env w b s =
     (case write_fault env (w_name w) of
        Some err \<Rightarrow> (Some err, w\<lparr>w_err := Some err\<rparr>, called (CallWrite (w_name w) b) s)
      | None \<Rightarrow> (None, w\<lparr>w_data := w_data w @ b\<rparr>, called (CallWrite (w_name w) b) s))"

definition Writer_Close :: "'m env \<Rightarrow> writer_state \<Rightarrow> store \<Rightarrow> ext_error option \<times> store" where
  "Writer_Close env w s =
     (let s' = called (CallClose (w_name w)) s
      in case w_err w of
           Some err \<Rightarrow> (Some err, s')
         | None \<Rightarrow>
             (case close_fault env (w_name w) of
                Some err \<Rightarrow> (Some err, s')
              | None \<Rightarrow> (None, s'\<lparr>objects := (objects s')(w_name w \<mapsto> w_data w)\<rparr>)))"

text \<open>
  \<open>writeAll\<close>: the deferred \<open>Close\<close> runs on both ways out, and its result is dropped
  (\<open>snd\<close> keeps the state only).
\<close>

definition writeAll :: "'m env \<Rightarrow> string \<Rightarrow> bytes \<Rightarrow> store \<Rightarrow> error option \<times> store" where
  "writeAll env name b s =
     (let (w, s1) = writer name s;
          (err, w', s2) = Writer_Write env w b s1
      in case err of
           Some e \<Rightarrow> (Some (External e), snd (Writer_Close env w' s2))
         | None \<Rightarrow> (None, snd (Writer_Close env w' s2)))"

definition fileExists :: "'m env \<Rightarrow> string \<Rightarrow> store \<Rightarrow> bool \<times> store" where
  "fileExists env filename s = (\<not> os_IsNotExist (stat_err env filename), called (CallStat filename) s)"

definition os_Open :: "'m env \<Rightarrow> string \<Rightarrow> store \<Rightarrow> (os_error + (bytes \<times> os_error option)) \<times> store" where
  "os_Open env filename s = (open_file env filename, called (CallOpen filename) s)"

text \<open>
  \<open>io.Copy\<close>: the bytes read from the source go to the writer, a failing write ends the
  copy with its error, otherwise the copy ends with the source's read error, if any. An
  empty source makes no write.
\<close>

definition io_Copy :: "'m env \<Rightarrow> string \<Rightarrow> writer_state \<Rightarrow> (bytes \<times> os_error option) \<Rightarrow> store \<Rightarrow> error option \<times> writer_state \<times> store" where
  "io_Copy env filename w src s =
     (let s1 = called (CallFileRead filename) s
      in if fst src = [] then (map_option Os (snd src), w, s1)
         else case Writer_Write env w (fst src) s1 of
                (Some e, w', s2) \<Rightarrow> (Some (External e), w', s2)
              | (None, w', s2) \<Rightarrow> (map_option Os (snd src), w', s2))"

definition json_Marshal :: "'m env \<Rightarrow> 'm \<Rightarrow> store \<Rightarrow> (ext_error + bytes) \<times> store" where
  "json_Marshal env meta s = (marshal env meta, called CallMarshal s)"

subsection \<open>Write\<close>

text \<open>Lines 75 to 91 of \<open>Write\<close>: what runs between the two \<open>defer\<close>s and their execution.\<close>

definition Write_copy_meta :: "'m env \<Rightarrow> uuid \<Rightarrow> string \<Rightarrow> 'm \<Rightarrow> string \<Rightarrow> writer_state \<Rightarrow> (bytes \<times> os_error option) \<Rightarrow> store \<Rightarrow> error option \<times> writer_state \<times> store" where
  "Write_copy_meta env blockID tenantID meta objectFilePath w src s =
     (case io_Copy env objectFilePath w src s of
        (Some err, w', s1) \<Rightarrow> (Some err, w', s1)
      | (None, w', s1) \<Rightarrow>
          (case json_Marshal env meta s1 of
             (Inl err, s2) \<Rightarrow> (Some (External err), w', s2)
           | (Inr bMeta, s2) \<Rightarrow>
               (case writeAll env (metaFileName blockID tenantID) bMeta s2 of
                  (Some err, s3) \<Rightarrow> (Some err, w', s3)
                | (None, s3) \<Rightarrow> (None, w', s3))))"

definition Write :: "'m env \<Rightarrow> uuid \<Rightarrow> string \<Rightarrow> 'm \<Rightarrow> bytes \<Rightarrow> bytes \<Rightarrow> string \<Rightarrow> store \<Rightarrow> error option \<times> store" where
  "Write env blockID tenantID meta bBloom bIndex objectFilePath s =
     (case writeAll env (bloomFileName blockID tenantID) bBloom s of
        (Some err, s1) \<Rightarrow> (Some err, s1)
      | (None, s1) \<Rightarrow>
     (case writeAll env (indexFileName blockID tenantID) bIndex s1 of
        (Some err, s2) \<Rightarrow> (Some err, s2)
      | (None, s2) \<Rightarrow>
     (case fileExists env objectFilePath s2 of
        (False, s3) \<Rightarrow> (Some (ObjectFileNotFound objectFilePath), s3)
      | (True, s3) \<Rightarrow>
     (case os_Open env objectFilePath s3 of
        (Inl err, s4) \<Rightarrow> (Some (Os err), s4)
      | (Inr src, s4) \<Rightarrow>
          (let (w, s5) = writer (objectFileName blockID tenantID) s4;
               (res, w', s6) = Write_copy_meta env blockID tenantID meta objectFilePath w src s5;
               s7 = snd (Writer_Close env w' s6);
               s8 = called (CallFileClose objectFilePath) s7
           in (res, s8))))))"

subsection \<open>Whole-object reads\<close>

text \<open>
  \<open>NewReader\<close> fails on an object that does not exist, or as the environment says;
  \<open>ioutil.ReadAll\<close> returns the bytes read so far together with its error.
\<close>

definition NewReader :: "'m env \<Rightarrow> store \<Rightarrow> string \<Rightarrow> ext_error + bytes" where
  "NewReader env s name =
     (case reader_fault env name of
        Some err \<Rightarrow> Inl err
      | None \<Rightarrow> (case objects s name of None \<Rightarrow> Inl ErrObjectNotExist | Some d \<Rightarrow> Inr d))"

definition ioutil_ReadAll :: "'m env \<Rightarrow> string \<Rightarrow> bytes \<Rightarrow> bytes \<times> error option" where
  "ioutil_ReadAll env name d =
     (case readall_fault env name of
        Some (n, err) \<Rightarrow> (take n d, Some (External err))
      | None \<Rightarrow> (d, None))"

definition readAll :: "'m env \<Rightarrow> string \<Rightarrow> store \<Rightarrow> bytes \<times> error option" where
  "readAll env name s =
     (case NewReader env s name of
        Inl err \<Rightarrow> ([], Some (External err))
      | Inr r \<Rightarrow> ioutil_ReadAll env name r)"

definition BlockMeta :: "'m env \<Rightarrow> uuid \<Rightarrow> string \<Rightarrow> store \<Rightarrow> error + 'm" where
  "BlockMeta env blockID tenantID s =
     (let name = metaFileName blockID tenantID
      in case readAll env name s of
           (bs, Some err) \<Rightarrow> Inl err
         | (bs, None) \<Rightarrow>
             (case unmarshal env bs of
                Inl err \<Rightarrow> Inl (External err)
              | Inr out \<Rightarrow> Inr out))"

definition Bloom :: "'m env \<Rightarrow> uuid \<Rightarrow> string \<Rightarrow> store \<Rightarrow> bytes \<times> error option" where
  "Bloom env blockID tenantID s = readAll env (bloomFileName blockID tenantID) s"

definition Index :: "'m env \<Rightarrow> uuid \<Rightarrow> string \<Rightarrow> store \<Rightarrow> bytes \<times> error option" where
  "Index env blockID tenantID s = readAll env (indexFileName blockID tenantID) s"

subsection \<open>Ranged reads\<close>

text \<open>
  What one \<open>Read\<close> of a stream hands back beside the bytes: no error, \<open>io.EOF\<close>, or
  another error. The ranged reader of the storage client is a parameter: how a reader is
  opened on an object for an offset and a length, and what a \<open>Read\<close> into a slice of a
  given length delivers. The number of bytes \<open>Read\<close> reports is the length of the chunk
  it delivers; a slice never takes more than it holds.
\<close>

datatype read_status = ReadOk | ReadEOF | ReadErr ext_error

record 'r ranger =
  rr_New :: "(string \<rightharpoonup> bytes) \<Rightarrow> string \<Rightarrow> int \<Rightarrow> int \<Rightarrow> ext_error + 'r"
  rr_Read :: "'r \<Rightarrow> nat \<Rightarrow> bytes \<times> read_status \<times> 'r"

definition copy_into :: "bytes \<Rightarrow> nat \<Rightarrow> bytes \<Rightarrow> bytes" where
  "copy_into buffer off chunk =
     (let c = take (length buffer - off) chunk
      in take off buffer @ c @ drop (off + length c) buffer)"

text \<open>
  The loop of \<open>readRange\<close>. The result is the error, the buffer as the reads left it, and
  the values \<open>totalBytes\<close> had at each slice expression \<open>buffer[totalBytes:]\<close>.
\<close>

function readRange_loop :: "('r \<Rightarrow> nat \<Rightarrow> bytes \<times> read_status \<times> 'r) \<Rightarrow> 'r \<Rightarrow> bytes \<Rightarrow> nat \<Rightarrow> error option \<times> bytes \<times> nat list" where
  "readRange_loop rd r buffer totalBytes =
     (if length buffer < totalBytes then (Some SliceBounds, buffer, [totalBytes])
      else
        (case rd r (length buffer - totalBytes) of
           (chunk, ReadEOF, r') \<Rightarrow> (None, copy_into buffer totalBytes chunk, [totalBytes])
         | (chunk, ReadErr err, r') \<Rightarrow> (Some (External err), copy_into buffer totalBytes chunk, [totalBytes])
         | (chunk, ReadOk, r') \<Rightarrow>
             (if length chunk = 0 then (None, copy_into buffer totalBytes chunk, [totalBytes])
              else
                (case readRange_loop rd r' (copy_into buffer totalBytes chunk) (totalBytes + length chunk) of
                   (res, buffer', slices) \<Rightarrow> (res, buffer', totalBytes # slices)))))"
  by pat_completeness auto
termination
  by (relation "measure (\<lambda>(rd, r, buffer, totalBytes). Suc (length buffer) - totalBytes)")
     (auto simp add: copy_into_def Let_def intro!: diff_less_mono2 simp flip: length_greater_0_conv)

declare readRange_loop.simps [simp del]

definition readRange :: "'r ranger \<Rightarrow> string \<Rightarrow> int \<Rightarrow> bytes \<Rightarrow> store \<Rightarrow> error option \<times> bytes" where
  "readRange rr name offset buffer s =
     (case rr_New rr (objects s) name offset (int (length buffer)) of
        Inl err \<Rightarrow> (Some (External err), buffer)
      | Inr r \<Rightarrow>
          (case readRange_loop (rr_Read rr) r buffer 0 of
             (res, buffer', slices) \<Rightarrow> (res, buffer')))"

text \<open>\<open>Object\<close>: \<open>start\<close> is a \<open>uint64\<close>, converted to \<open>int64\<close> for the reader.\<close>

definition Object :: "'r ranger \<Rightarrow> uuid \<Rightarrow> string \<Rightarrow> 64 word \<Rightarrow> bytes \<Rightarrow> store \<Rightarrow> error option \<times> bytes" where
  "Object rr blockID tenantID start buffer s =
     readRange rr (objectFileName blockID tenantID) (sint start) buffer s"

text \<open>
  The bucket's ranged reader: a stream over the requested range of the object's bytes.
  Each \<open>Read\<close> delivers a chunk no longer than the slice; the list \<open>limits\<close> bounds the
  successive chunks (a network that delivers less than asked for), and an exhausted
  stream answers \<open>io.EOF\<close>.
\<close>

record stream =
  remaining :: bytes
  limits :: "nat list"

definition gcs_NewRangeReader :: "nat list \<Rightarrow> (string \<rightharpoonup> bytes) \<Rightarrow> string \<Rightarrow> int \<Rightarrow> int \<Rightarrow> ext_error + stream" where
  "gcs_NewRangeReader plan objs name offset len =
     (if offset < 0 then Inl (ExtError ''storage: invalid offset'')
      else case objs name of
             None \<Rightarrow> Inl ErrObjectNotExist
           | Some d \<Rightarrow> Inr \<lparr>remaining = take (nat len) (drop (nat offset) d), limits = plan\<rparr>)"

definition gcs_Read :: "stream \<Rightarrow> nat \<Rightarrow> bytes \<times> read_status \<times> stream" where
  "gcs_Read st k =
     (if remaining st = [] then ([], ReadEOF, st)
      else
        let n = (case limits st of [] \<Rightarrow> k | l # ls \<Rightarrow> min l k)
        in (take n (remaining st), ReadOk,
            \<lparr>remaining = drop n (remaining st), limits = tl (limits st)\<rparr>))"

definition gcs_ranger :: "nat list \<Rightarrow> stream ranger" where
  "gcs_ranger plan = \<lparr>rr_New = gcs_NewRangeReader plan, rr_Read = gcs_Read\<rparr>"

subsection \<open>Listings\<close>

text \<open>
  The iterator of the storage client is a parameter: a state and the function \<open>iter.Next\<close>
  applies to it, which answers \<open>iterator.Done\<close> (\<open>None\<close>) or a result, the attributes of an
  entry or an error, together with the next state. Only the \<open>Prefix\<close> of an entry is
  looked at. The loops of \<open>Tenants\<close> and \<open>Blocks\<close> end at \<open>iterator.Done\<close> and nowhere else:
  they need not return, and a call that does not return has the value \<open>None\<close>.
\<close>

record attrs =
  Prefix :: string
  Name :: string

datatype next_result = Entry attrs | NextErr ext_error

definition strings_TrimSuffix :: "string \<Rightarrow> string \<Rightarrow> string" where
  "strings_TrimSuffix s suffix =
     (if length suffix \<le> length s \<and> drop (length s - length suffix) s = suffix
      then take (length s - length suffix) s else s)"

definition strings_TrimPrefix :: "string \<Rightarrow> string \<Rightarrow> string" where
  "strings_TrimPrefix s prefix =
     (if length prefix \<le> length s \<and> take (length prefix) s = prefix
      then drop (length prefix) s else s)"

partial_function (option) Tenants_loop :: "('i \<Rightarrow> (next_result \<times> 'i) option) \<Rightarrow> 'i \<Rightarrow> string list \<Rightarrow> error option \<Rightarrow> (string list \<times> error option) option" where
  "Tenants_loop iter_Next iter tenants warning =
     (case iter_Next iter of
        None \<Rightarrow> Some (tenants, warning)
      | Some (NextErr err, iter') \<Rightarrow> Tenants_loop iter_Next iter' tenants (Some (External err))
      | Some (Entry a, iter') \<Rightarrow>
          Tenants_loop iter_Next iter' (tenants @ [strings_TrimSuffix (Prefix a) ''/'']) warning)"

definition Tenants :: "('i \<Rightarrow> (next_result \<times> 'i) option) \<Rightarrow> 'i \<Rightarrow> (string list \<times> error option) option" where
  "Tenants iter_Next iter = Tenants_loop iter_Next iter [] None"

text \<open>\<open>uuid.Parse\<close> is a parameter of \<open>Blocks\<close>.\<close>

definition idString :: "string \<Rightarrow> attrs \<Rightarrow> string" where
  "idString tenantID a =
     strings_TrimSuffix (strings_TrimPrefix (Prefix a) (tenantID @ ''/'')) ''/''"

partial_function (option) Blocks_loop :: "(string \<Rightarrow> ext_error + uuid) \<Rightarrow> string \<Rightarrow> ('i \<Rightarrow> (next_result \<times> 'i) option) \<Rightarrow> 'i \<Rightarrow> uuid list \<Rightarrow> error option \<Rightarrow> (uuid list \<times> error option) option" where
  "Blocks_loop parse tenantID iter_Next iter blocks warning =
     (case iter_Next iter of
        None \<Rightarrow> Some (blocks, warning)
      | Some (NextErr err, iter') \<Rightarrow>
          Blocks_loop parse tenantID iter_Next iter' blocks (Some (External err))
      | Some (Entry a, iter') \<Rightarrow>
          (case parse (idString tenantID a) of
             Inl err \<Rightarrow>
               Blocks_loop parse tenantID iter_Next iter' blocks
                 (Some (FailedParse (idString tenantID a) err))
           | Inr blockID \<Rightarrow>
               Blocks_loop parse tenantID iter_Next iter' (blocks @ [blockID]) warning))"

definition Blocks :: "(string \<Rightarrow> ext_error + uuid) \<Rightarrow> string \<Rightarrow> ('i \<Rightarrow> (next_result \<times> 'i) option) \<Rightarrow> 'i \<Rightarrow> (uuid list \<times> error option) option" where
  "Blocks parse tenantID iter_Next iter = Blocks_loop parse tenantID iter_Next iter [] None"

text \<open>
  Two iterators over the results still to come. The first answers \<open>iterator.Done\<close> when
  they are used up. The second is a listing whose next page cannot be fetched: it
  answers the error of the fetch, and the same error at every later call, as the
  iterators of the client library do.
\<close>

definition list_Next :: "next_result list \<Rightarrow> (next_result \<times> next_result list) option" where
  "list_Next iter = (case iter of [] \<Rightarrow> None | x # rest \<Rightarrow> Some (x, rest))"

definition broken_Next :: "ext_error \<Rightarrow> next_result list \<Rightarrow> (next_result \<times> next_result list) option" where
  "broken_Next err iter = (case iter of [] \<Rightarrow> Some (NextErr err, []) | x # rest \<Rightarrow> Some (x, rest))"

subsection \<open>Notions used to state the properties\<close>

text \<open>
  A plain path element: not empty, not \<open>.\<close> or \<open>..\<close>, and free of slashes. The four
  file names and the text of a block identifier are plain.
\<close>

definition plain_elem :: "string \<Rightarrow> bool" where
  "plain_elem n = (n \<noteq> [] \<and> n \<noteq> ''.'' \<and> n \<noteq> ''..'' \<and> CHR ''/'' \<notin> set n)"

text \<open>What \<open>path.Join\<close> puts in front of a plain last element joined to the path \<open>r\<close>.\<close>

definition key_prefix :: "string \<Rightarrow> string" where
  "key_prefix r =
     (let rooted = (hd r = CHR ''/'');
          out = foldl (clean_elem rooted) [] (filter (\<lambda>e. e \<noteq> [] \<and> e \<noteq> ''.'') (split_slash r))
      in (if rooted then ''/'' else []) @ (if out = [] then [] else join_slash out @ ''/''))"

text \<open>
  The steps of one \<open>Write\<close>, in the order of the source, each with the error it ends with
  when it is the step that fails and with the calls it makes.
\<close>

datatype step = BloomWrite | IndexWrite | SourceCheck | SourceOpen | PayloadCopy | MetaSerialize | MetaWrite

definition Write_steps :: "step list" where
  "Write_steps = [BloomWrite, IndexWrite, SourceCheck, SourceOpen, PayloadCopy, MetaSerialize, MetaWrite]"

fun step_error :: "'m env \<Rightarrow> uuid \<Rightarrow> string \<Rightarrow> 'm \<Rightarrow> string \<Rightarrow> step \<Rightarrow> error option" where
  "step_error env blockID tenantID meta path BloomWrite =
     map_option External (write_fault env (bloomFileName blockID tenantID))"
| "step_error env blockID tenantID meta path IndexWrite =
     map_option External (write_fault env (indexFileName blockID tenantID))"
| "step_error env blockID tenantID meta path SourceCheck =
     (if os_IsNotExist (stat_err env path) then Some (ObjectFileNotFound path) else None)"
| "step_error env blockID tenantID meta path SourceOpen =
     (case open_file env path of Inl err \<Rightarrow> Some (Os err) | Inr src \<Rightarrow> None)"
| "step_error env blockID tenantID meta path PayloadCopy =
     (case open_file env path of
        Inl err \<Rightarrow> None
      | Inr src \<Rightarrow>
          (if fst src = [] then map_option Os (snd src)
           else case write_fault env (objectFileName blockID tenantID) of
                  Some err \<Rightarrow> Some (External err)
                | None \<Rightarrow> map_option Os (snd src)))"
| "step_error env blockID tenantID meta path MetaSerialize =
     (case marshal env meta of Inl err \<Rightarrow> Some (External err) | Inr bMeta \<Rightarrow> None)"
| "step_error env blockID tenantID meta path MetaWrite =
     map_option External (write_fault env (metaFileName blockID tenantID))"

text \<open>The steps that run: all up to and including the first that fails.\<close>

fun steps_until_failure :: "(step \<Rightarrow> error option) \<Rightarrow> step list \<Rightarrow> step list" where
  "steps_until_failure f [] = []"
| "steps_until_failure f (st # rest) =
     st # (if f st = None then steps_until_failure f rest else [])"

definition steps_run :: "'m env \<Rightarrow> uuid \<Rightarrow> string \<Rightarrow> 'm \<Rightarrow> string \<Rightarrow> step list" where
  "steps_run env blockID tenantID meta path =
     steps_until_failure (step_error env blockID tenantID meta path) Write_steps"

fun step_calls :: "'m env \<Rightarrow> uuid \<Rightarrow> string \<Rightarrow> 'm \<Rightarrow> bytes \<Rightarrow> bytes \<Rightarrow> string \<Rightarrow> step \<Rightarrow> call list" where
  "step_calls env blockID tenantID meta bBloom bIndex path BloomWrite =
     [CallNewWriter (bloomFileName blockID tenantID),
      CallWrite (bloomFileName blockID tenantID) bBloom,
      CallClose (bloomFileName blockID tenantID)]"
| "step_calls env blockID tenantID meta bBloom bIndex path IndexWrite =
     [CallNewWriter (indexFileName blockID tenantID),
      CallWrite (indexFileName blockID tenantID) bIndex,
      CallClose (indexFileName blockID tenantID)]"
| "step_calls env blockID tenantID meta bBloom bIndex path SourceCheck = [CallStat path]"
| "step_calls env blockID tenantID meta bBloom bIndex path SourceOpen = [CallOpen path]"
| "step_calls env blockID tenantID meta bBloom bIndex path PayloadCopy =
     (case open_file env path of
        Inl err \<Rightarrow> []
      | Inr src \<Rightarrow>
          [CallNewWriter (objectFileName blockID tenantID), CallFileRead path] @
          (if fst src = [] then [] else [CallWrite (objectFileName blockID tenantID) (fst src)]))"
| "step_calls env blockID tenantID meta bBloom bIndex path MetaSerialize = [CallMarshal]"
| "step_calls env blockID tenantID meta bBloom bIndex path MetaWrite =
     (case marshal env meta of
        Inl err \<Rightarrow> []
      | Inr bMeta \<Rightarrow>
          [CallNewWriter (metaFileName blockID tenantID),
           CallWrite (metaFileName blockID tenantID) bMeta,
           CallClose (metaFileName blockID tenantID)])"

text \<open>The deferred calls, made on the way out once the payload writer exists.\<close>

definition deferred_calls :: "uuid \<Rightarrow> string \<Rightarrow> string \<Rightarrow> step list \<Rightarrow> call list" where
  "deferred_calls blockID tenantID path run =
     (if PayloadCopy \<in> set run
      then [CallClose (objectFileName blockID tenantID), CallFileClose path] else [])"

text \<open>A step ran to its end without error.\<close>

definition step_done :: "'m env \<Rightarrow> uuid \<Rightarrow> string \<Rightarrow> 'm \<Rightarrow> string \<Rightarrow> step \<Rightarrow> bool" where
  "step_done env blockID tenantID meta path st =
     (st \<in> set (steps_run env blockID tenantID meta path)
      \<and> step_error env blockID tenantID meta path st = None)"

text \<open>The names of the objects in the order in which their writers are closed.\<close>

fun closed_writers :: "call list \<Rightarrow> string list" where
  "closed_writers [] = []"
| "closed_writers (CallClose name # cs) = name # closed_writers cs"
| "closed_writers (c # cs) = closed_writers cs"

text \<open>
  Concrete collaborators for the examples: a working environment whose source file holds
  two bytes and whose metadata is a number serialised as one byte; the same with the source
  file missing; and the same with, in addition, every write to the bucket failing.
\<close>

definition unmarshal_byte :: "bytes \<Rightarrow> ext_error + nat" where
  "unmarshal_byte bs = (case bs of [b] \<Rightarrow> Inr (unat b) | _ \<Rightarrow> Inl (ExtError ''unexpected end of JSON input''))"

definition no_fault :: "string \<Rightarrow> 'e option" where
  "no_fault name = None"

definition marshal_byte :: "nat \<Rightarrow> ext_error + bytes" where
  "marshal_byte n = Inr [of_nat n]"

definition file_two_bytes :: "string \<Rightarrow> os_error + (bytes \<times> os_error option)" where
  "file_two_bytes path = Inr ([3, 4], None)"

definition env_ok :: "nat env" where
  "env_ok = \<lparr>write_fault = no_fault, stat_err = no_fault, open_file = file_two_bytes,
             marshal = marshal_byte, unmarshal = unmarshal_byte,
             reader_fault = no_fault, readall_fault = no_fault, close_fault = no_fault\<rparr>"

definition stat_missing :: "string \<Rightarrow> os_error option" where
  "stat_missing path = Some ErrNotExist"

definition open_missing :: "string \<Rightarrow> os_error + (bytes \<times> os_error option)" where
  "open_missing path = Inl ErrNotExist"

definition env_missing :: "nat env" where
  "env_missing = env_ok\<lparr>stat_err := stat_missing, open_file := open_missing\<rparr>"

definition bucket_down :: "string \<Rightarrow> ext_error option" where
  "bucket_down name = Some (ExtError ''googleapi: Error 503'')"

definition env_missing_bucket_down :: "nat env" where
  "env_missing_bucket_down = env_missing\<lparr>write_fault := bucket_down\<rparr>"

definition stat_denied :: "string \<Rightarrow> os_error option" where
  "stat_denied path = Some ErrPermission"

definition open_denied :: "string \<Rightarrow> os_error + (bytes \<times> os_error option)" where
  "open_denied path = Inl ErrPermission"

definition env_denied :: "nat env" where
  "env_denied = env_ok\<lparr>stat_err := stat_denied, open_file := open_denied\<rparr>"

definition empty_store :: store where
  "empty_store = \<lparr>objects = Map.empty, calls = []\<rparr>"

text \<open>
  A bucket on which the upload of one bloom object fails when its writer is closed, and
  one on which every upload does.
\<close>

definition bloom_upload_fails :: "string \<Rightarrow> ext_error option" where
  "bloom_upload_fails name =
     (if name = bloomFileName 1 ''t1'' then Some (ExtError ''googleapi: Error 503'') else None)"

definition env_bloom_upload_fails :: "nat env" where
  "env_bloom_upload_fails = env_ok\<lparr>close_fault := bloom_upload_fails\<rparr>"

definition env_uploads_fail :: "nat env" where
  "env_uploads_fail = env_ok\<lparr>close_fault := bucket_down\<rparr>"

definition marshal_fails :: "nat \<Rightarrow> ext_error + bytes" where
  "marshal_fails n = Inl (ExtError ''json: unsupported value'')"

definition env_json_fails :: "nat env" where
  "env_json_fails = env_ok\<lparr>marshal := marshal_fails\<rparr>"

definition payload_store :: store where
  "payload_store = \<lparr>objects = [objectFileName 1 ''t1'' \<mapsto> [10, 20, 30, 40, 50]], calls = []\<rparr>"

text \<open>
  What the listings are compared with. An iterator produces a sequence of results when
  its successive answers are these results and then \<open>iterator.Done\<close>. Of such a sequence:
  the entries, the failures met, in their order, and the block identifiers that parse.
\<close>

fun produces :: "('i \<Rightarrow> (next_result \<times> 'i) option) \<Rightarrow> 'i \<Rightarrow> next_result list \<Rightarrow> bool" where
  "produces iter_Next iter [] = (iter_Next iter = None)"
| "produces iter_Next iter (x # xs) =
     (case iter_Next iter of
        None \<Rightarrow> False
      | Some (y, iter') \<Rightarrow> y = x \<and> produces iter_Next iter' xs)"

fun entries :: "next_result list \<Rightarrow> attrs list" where
  "entries [] = []"
| "entries (Entry a # iter) = a # entries iter"
| "entries (NextErr err # iter) = entries iter"

fun Tenants_failures :: "next_result list \<Rightarrow> error list" where
  "Tenants_failures [] = []"
| "Tenants_failures (Entry a # iter) = Tenants_failures iter"
| "Tenants_failures (NextErr err # iter) = External err # Tenants_failures iter"

fun Blocks_failures :: "(string \<Rightarrow> ext_error + uuid) \<Rightarrow> string \<Rightarrow> next_result list \<Rightarrow> error list" where
  "Blocks_failures parse tenantID [] = []"
| "Blocks_failures parse tenantID (NextErr err # iter) = External err # Blocks_failures parse tenantID iter"
| "Blocks_failures parse tenantID (Entry a # iter) =
     (case parse (idString tenantID a) of
        Inl err \<Rightarrow> FailedParse (idString tenantID a) err # Blocks_failures parse tenantID iter
      | Inr blockID \<Rightarrow> Blocks_failures parse tenantID iter)"

fun parsed_blocks :: "(string \<Rightarrow> ext_error + uuid) \<Rightarrow> string \<Rightarrow> next_result list \<Rightarrow> uuid list" where
  "parsed_blocks parse tenantID [] = []"
| "parsed_blocks parse tenantID (NextErr err # iter) = parsed_blocks parse tenantID iter"
| "parsed_blocks parse tenantID (Entry a # iter) =
     (case parse (idString tenantID a) of
        Inl err \<Rightarrow> parsed_blocks parse tenantID iter
      | Inr blockID \<Rightarrow> blockID # parsed_blocks parse tenantID iter)"

definition last_failure :: "error list \<Rightarrow> error option" where
  "last_failure fs = (if fs = [] then None else Some (last fs))"

text \<open>
  An entry whose name parses, and the identifier it parses to, for listings of entries
  only.
\<close>

definition parses :: "(string \<Rightarrow> ext_error + uuid) \<Rightarrow> string \<Rightarrow> attrs \<Rightarrow> bool" where
  "parses parse tenantID a = (\<not> isl (parse (idString tenantID a)))"

text \<open>A parser for the examples: it knows two names.\<close>

definition parse_two :: "string \<Rightarrow> ext_error + uuid" where
  "parse_two s =
     (if s = ''a'' then Inr 10 else if s = ''b'' then Inr 11
      else Inl (ExtError ''invalid UUID length''))"

definition dir :: "string \<Rightarrow> attrs" where
  "dir p = \<lparr>Prefix = p, Name = []\<rparr>"

text \<open>
  A reader that breaks the contract of \<open>io.Reader\<close>: it reports one byte more than the
  slice it was given.
\<close>

definition over_Read :: "unit \<Rightarrow> nat \<Rightarrow> bytes \<times> read_status \<times> unit" where
  "over_Read r k = (replicate (Suc k) 9, ReadOk, r)"

section \<open>Properties\<close>

subsection \<open>The key scheme\<close>

lemma split_slash_nonempty: "split_slash s \<noteq> []"
  by (induction s) (auto split: list.splits)

lemma split_slash_plain: "CHR ''/'' \<notin> set s \<Longrightarrow> split_slash s = [s]"
  by (induction s) (auto split: list.splits)

lemma split_slash_snoc:
  "CHR ''/'' \<notin> set n \<Longrightarrow> split_slash (r @ CHR ''/'' # n) = split_slash r @ [n]"
proof (induction r)
  case Nil
  then show ?case by (simp add: split_slash_plain)
next
  case (Cons c cs)
  then show ?case using split_slash_nonempty [of cs]
    by (cases "split_slash cs") auto
qed

lemma join_slash_snoc:
  "join_slash (out @ [n]) = (if out = [] then n else join_slash out @ ''/'' @ n)"
  by (induction out rule: join_slash.induct) auto

lemma path_Clean_nonempty: "path_Clean p \<noteq> []"
  by (simp add: path_Clean_def Let_def)

lemma path_Clean_snoc:
  assumes "r \<noteq> []" "plain_elem n"
  shows "path_Clean (r @ CHR ''/'' # n) = key_prefix r @ n"
proof -
  have hd: "hd (r @ CHR ''/'' # n) = hd r" using assms(1) by simp
  have n: "n \<noteq> []" "n \<noteq> ''.''" "n \<noteq> ''..''" "CHR ''/'' \<notin> set n"
    using assms(2) by (simp_all add: plain_elem_def)
  show ?thesis
    using n assms(1)
    by (simp add: path_Clean_def key_prefix_def Let_def hd split_slash_snoc clean_elem_def
        join_slash_snoc del: hd_append2)
qed

lemma path_Clean_plain: "plain_elem n \<Longrightarrow> path_Clean n = n"
  by (cases n) (auto simp add: path_Clean_def plain_elem_def split_slash_plain clean_elem_def Let_def)

lemma path_Join_pair:
  assumes "plain_elem n"
  shows "path_Join [r, n] = (if r = [] then n else key_prefix r @ n)"
  using assms path_Clean_snoc [of r n] path_Clean_plain [of n]
  by (auto simp add: path_Join_def plain_elem_def)

lemma key_prefix_plain:
  "t \<noteq> [] \<Longrightarrow> t \<noteq> ''.'' \<Longrightarrow> CHR ''/'' \<notin> set t \<Longrightarrow> key_prefix t = t @ ''/''"
  by (cases t) (auto simp add: key_prefix_def Let_def split_slash_plain clean_elem_def)

lemma key_prefix_pair:
  "t \<noteq> [] \<Longrightarrow> t \<noteq> ''.'' \<Longrightarrow> CHR ''/'' \<notin> set t \<Longrightarrow> plain_elem u
    \<Longrightarrow> key_prefix (t @ CHR ''/'' # u) = t @ ''/'' @ u @ ''/''"
  by (cases t) (auto simp add: key_prefix_def Let_def split_slash_plain split_slash_snoc clean_elem_def plain_elem_def)

lemma hex_digit_in: "k < 16 \<Longrightarrow> hextable ! k \<in> set hextable"
  by (rule nth_mem) (simp add: hextable_def)

lemma set_hex_Encode: "set (hex_Encode bs) \<subseteq> set hextable"
proof -
  have "unat v div 16 < 16" "unat v mod 16 < 16" for v :: byte
    using unsigned_less [of v, where 'a = nat] by simp_all
  then show ?thesis
    unfolding hex_Encode_def by (auto intro: hex_digit_in)
qed

lemma length_hex_Encode: "length (hex_Encode bs) = 2 * length bs"
  by (induction bs) (simp_all add: hex_Encode_def)

lemma length_uuid_String: "length (uuid_String u) = 36"
  by (simp add: uuid_String_def Let_def length_hex_Encode uuid_bytes_def)

lemma slash_notin_hextable: "CHR ''/'' \<notin> set hextable"
  by (simp add: hextable_def)

lemma uuid_String_plain: "plain_elem (uuid_String u)"
proof -
  have "CHR ''/'' \<notin> set (hex_Encode bs)" for bs
    using set_hex_Encode [of bs] slash_notin_hextable by blast
  then have "CHR ''/'' \<notin> set (uuid_String u)"
    by (simp add: uuid_String_def Let_def)
  moreover have "uuid_String u \<noteq> []" "uuid_String u \<noteq> ''.''" "uuid_String u \<noteq> ''..''"
    using length_uuid_String [of u] by auto
  ultimately show ?thesis by (simp add: plain_elem_def)
qed

lemma file_names_plain:
  "plain_elem ''meta.json''" "plain_elem ''bloom''" "plain_elem ''index''" "plain_elem ''data''"
  by (simp_all add: plain_elem_def)

lemma rootPath_nonempty: "rootPath blockID tenantID \<noteq> []"
  using uuid_String_plain [of blockID] path_Clean_nonempty
  by (auto simp add: rootPath_def path_Join_def plain_elem_def split: list.splits)

lemma file_names_prefix:
  "metaFileName blockID tenantID = key_prefix (rootPath blockID tenantID) @ ''meta.json''"
  "bloomFileName blockID tenantID = key_prefix (rootPath blockID tenantID) @ ''bloom''"
  "indexFileName blockID tenantID = key_prefix (rootPath blockID tenantID) @ ''index''"
  "objectFileName blockID tenantID = key_prefix (rootPath blockID tenantID) @ ''data''"
  by (simp_all add: metaFileName_def bloomFileName_def indexFileName_def objectFileName_def
      path_Join_pair file_names_plain rootPath_nonempty)

lemma file_names_distinct:
  "bloomFileName blockID tenantID \<noteq> indexFileName blockID tenantID"
  "bloomFileName blockID tenantID \<noteq> objectFileName blockID tenantID"
  "bloomFileName blockID tenantID \<noteq> metaFileName blockID tenantID"
  "indexFileName blockID tenantID \<noteq> objectFileName blockID tenantID"
  "indexFileName blockID tenantID \<noteq> metaFileName blockID tenantID"
  "objectFileName blockID tenantID \<noteq> metaFileName blockID tenantID"
  by (simp_all add: file_names_prefix)

lemma rootPath_plain_tenant:
  assumes "tenantID \<noteq> []" "tenantID \<noteq> ''.''" "CHR ''/'' \<notin> set tenantID"
  shows "rootPath blockID tenantID = tenantID @ ''/'' @ uuid_String blockID"
  using assms by (simp add: rootPath_def path_Join_pair uuid_String_plain key_prefix_plain)

lemma file_names_plain_tenant:
  assumes "tenantID \<noteq> []" "tenantID \<noteq> ''.''" "CHR ''/'' \<notin> set tenantID"
  shows "metaFileName blockID tenantID = tenantID @ ''/'' @ uuid_String blockID @ ''/meta.json''"
    and "bloomFileName blockID tenantID = tenantID @ ''/'' @ uuid_String blockID @ ''/bloom''"
    and "indexFileName blockID tenantID = tenantID @ ''/'' @ uuid_String blockID @ ''/index''"
    and "objectFileName blockID tenantID = tenantID @ ''/'' @ uuid_String blockID @ ''/data''"
  using assms key_prefix_pair [OF assms uuid_String_plain, of blockID]
  by (simp_all add: file_names_prefix rootPath_plain_tenant)

lemma uuid_String_1: "uuid_String 1 = ''00000000-0000-0000-0000-000000000001''"
  by (simp add: uuid_String_def uuid_bytes_def hex_Encode_def hextable_def upt_rec drop_bit_eq_div)

text \<open>
  C8, as amended. For every block identifier and every tenant identifier that is a plain
  path element (not empty, not \<open>.\<close>, without a slash), the four keys are the tenant, the
  text of the block identifier and the file name \<open>meta.json\<close>, \<open>bloom\<close>, \<open>index\<close> or
  \<open>data\<close>, joined by slashes. The derivation is a total function.
\<close>

theorem key_scheme_plain_tenant:
  assumes "tenantID \<noteq> []" "tenantID \<noteq> ''.''" "CHR ''/'' \<notin> set tenantID"
  shows "metaFileName blockID tenantID = tenantID @ ''/'' @ uuid_String blockID @ ''/meta.json''
       \<and> bloomFileName blockID tenantID = tenantID @ ''/'' @ uuid_String blockID @ ''/bloom''
       \<and> indexFileName blockID tenantID = tenantID @ ''/'' @ uuid_String blockID @ ''/index''
       \<and> objectFileName blockID tenantID = tenantID @ ''/'' @ uuid_String blockID @ ''/data''"
  using assms by (simp add: file_names_plain_tenant)

theorem key_scheme_plain_tenant_witness:
  "metaFileName 1 ''t1'' = ''t1/00000000-0000-0000-0000-000000000001/meta.json''
   \<and> bloomFileName 1 ''t1'' = ''t1/00000000-0000-0000-0000-000000000001/bloom''
   \<and> indexFileName 1 ''t1'' = ''t1/00000000-0000-0000-0000-000000000001/index''
   \<and> objectFileName 1 ''t1'' = ''t1/00000000-0000-0000-0000-000000000001/data''"
  using key_scheme_plain_tenant [of "''t1''" 1] by (simp add: uuid_String_1)

text \<open>
  C8 as stated fails for the empty tenant identifier: \<open>path.Join\<close> drops the empty
  element, and the key has no leading slash.
\<close>

theorem key_scheme_empty_tenant_counterexample:
  "metaFileName 1 [] = ''00000000-0000-0000-0000-000000000001/meta.json''
   \<and> metaFileName 1 [] \<noteq> [] @ ''/'' @ uuid_String 1 @ ''/meta.json''"
  by (simp add: metaFileName_def rootPath_def path_Join_def path_Clean_def clean_elem_def Let_def
      uuid_String_def uuid_bytes_def hex_Encode_def hextable_def upt_rec drop_bit_eq_div)

subsection \<open>Write\<close>

lemmas Write_defs = Write_def Write_copy_meta_def writeAll_def writer_def Writer_Write_def Writer_Close_def
  called_def fileExists_def os_Open_def io_Copy_def json_Marshal_def

lemma Write_result:
  "fst (Write env blockID tenantID meta bBloom bIndex path s) =
     step_error env blockID tenantID meta path (last (steps_run env blockID tenantID meta path))"
  by (simp add: Write_defs steps_run_def Write_steps_def Let_def
      split: option.splits sum.splits prod.splits bool.splits)

lemma Write_calls:
  "calls (snd (Write env blockID tenantID meta bBloom bIndex path s)) =
     calls s
     @ concat (map (step_calls env blockID tenantID meta bBloom bIndex path) (steps_run env blockID tenantID meta path))
     @ deferred_calls blockID tenantID path (steps_run env blockID tenantID meta path)"
  by (simp add: Write_defs steps_run_def Write_steps_def deferred_calls_def Let_def
      split: option.splits sum.splits prod.splits bool.splits)

lemma Write_objects_bloom:
  "step_done env blockID tenantID meta path BloomWrite \<Longrightarrow>
   close_fault env (bloomFileName blockID tenantID) = None \<Longrightarrow>
     objects (snd (Write env blockID tenantID meta bBloom bIndex path s)) (bloomFileName blockID tenantID) = Some bBloom"
  by (simp add: Write_defs steps_run_def Write_steps_def step_done_def Let_def file_names_distinct
      split: option.splits sum.splits prod.splits bool.splits)

lemma Write_objects_index:
  "step_done env blockID tenantID meta path IndexWrite \<Longrightarrow>
   close_fault env (indexFileName blockID tenantID) = None \<Longrightarrow>
     objects (snd (Write env blockID tenantID meta bBloom bIndex path s)) (indexFileName blockID tenantID) = Some bIndex"
  by (simp add: Write_defs steps_run_def Write_steps_def step_done_def Let_def file_names_distinct file_names_distinct [symmetric]
      split: option.splits sum.splits prod.splits bool.splits)

lemma Write_objects_data:
  "step_done env blockID tenantID meta path PayloadCopy \<Longrightarrow> open_file env path = Inr src \<Longrightarrow>
   close_fault env (objectFileName blockID tenantID) = None \<Longrightarrow>
     objects (snd (Write env blockID tenantID meta bBloom bIndex path s)) (objectFileName blockID tenantID) = Some (fst src)"
  by (simp add: Write_defs steps_run_def Write_steps_def step_done_def Let_def file_names_distinct file_names_distinct [symmetric]
      split: option.splits sum.splits prod.splits bool.splits if_splits)

lemma Write_objects_meta:
  "step_done env blockID tenantID meta path MetaWrite \<Longrightarrow> marshal env meta = Inr bMeta \<Longrightarrow>
   close_fault env (metaFileName blockID tenantID) = None \<Longrightarrow>
     objects (snd (Write env blockID tenantID meta bBloom bIndex path s)) (metaFileName blockID tenantID) = Some bMeta"
  by (simp add: Write_defs steps_run_def Write_steps_def step_done_def Let_def file_names_distinct file_names_distinct [symmetric]
      split: option.splits sum.splits prod.splits bool.splits if_splits)

lemma Write_objects_meta_untouched:
  "MetaWrite \<notin> set (steps_run env blockID tenantID meta path) \<Longrightarrow>
     objects (snd (Write env blockID tenantID meta bBloom bIndex path s)) (metaFileName blockID tenantID)
       = objects s (metaFileName blockID tenantID)"
  by (auto simp add: Write_defs steps_run_def Write_steps_def step_done_def Let_def file_names_distinct file_names_distinct [symmetric]
      split: option.splits sum.splits prod.splits bool.splits if_splits)


lemma os_IsNotExist_iff: "os_IsNotExist e \<longleftrightarrow> e = Some ErrNotExist"
  by (cases e rule: os_IsNotExist.cases) simp_all

lemma steps_run_missing:
  "os_IsNotExist (stat_err env path) \<Longrightarrow>
     set (steps_run env blockID tenantID meta path) \<subseteq> {BloomWrite, IndexWrite, SourceCheck}
     \<and> step_error env blockID tenantID meta path (last (steps_run env blockID tenantID meta path)) \<noteq> None"
  by (auto simp add: steps_run_def Write_steps_def)

lemmas example_defs = env_ok_def env_missing_def env_missing_bucket_down_def env_denied_def
  no_fault_def marshal_byte_def unmarshal_byte_def file_two_bytes_def stat_missing_def open_missing_def
  bucket_down_def stat_denied_def open_denied_def empty_store_def

text \<open>
  C1, as amended. For every Write call whose payload source file does not exist
  (\<open>os.Stat\<close> reports that it does not), Write returns an error, the meta key of the block
  is left as it was and no writer is opened on it; when the bloom and the index write
  succeed, the error returned is the source-missing error.
\<close>

theorem Write_source_missing:
  assumes "os_IsNotExist (stat_err env path)"
  shows "fst (Write env blockID tenantID meta bBloom bIndex path s) \<noteq> None
    \<and> (write_fault env (bloomFileName blockID tenantID) = None
         \<and> write_fault env (indexFileName blockID tenantID) = None
        \<longrightarrow> fst (Write env blockID tenantID meta bBloom bIndex path s) = Some (ObjectFileNotFound path))
    \<and> objects (snd (Write env blockID tenantID meta bBloom bIndex path s)) (metaFileName blockID tenantID)
        = objects s (metaFileName blockID tenantID)
    \<and> CallNewWriter (metaFileName blockID tenantID)
        \<notin> set (drop (length (calls s)) (calls (snd (Write env blockID tenantID meta bBloom bIndex path s))))"
proof -
  let ?run = "steps_run env blockID tenantID meta path"
  have run: "set ?run \<subseteq> {BloomWrite, IndexWrite, SourceCheck}"
    and err: "step_error env blockID tenantID meta path (last ?run) \<noteq> None"
    using steps_run_missing [OF assms] by blast+
  have 1: "fst (Write env blockID tenantID meta bBloom bIndex path s) \<noteq> None"
    using err by (simp add: Write_result)
  have 2: "write_fault env (bloomFileName blockID tenantID) = None
         \<and> write_fault env (indexFileName blockID tenantID) = None
        \<longrightarrow> fst (Write env blockID tenantID meta bBloom bIndex path s) = Some (ObjectFileNotFound path)"
    using assms by (simp add: Write_result steps_run_def Write_steps_def)
  have "MetaWrite \<notin> set ?run" using run by auto
  then have 3: "objects (snd (Write env blockID tenantID meta bBloom bIndex path s)) (metaFileName blockID tenantID)
        = objects s (metaFileName blockID tenantID)"
    by (rule Write_objects_meta_untouched)
  have "CallNewWriter (metaFileName blockID tenantID)
          \<notin> set (step_calls env blockID tenantID meta bBloom bIndex path st)" if "st \<in> set ?run" for st
    using that run by (auto simp add: file_names_distinct file_names_distinct [symmetric])
  moreover have "deferred_calls blockID tenantID path ?run = []"
    using run by (auto simp add: deferred_calls_def)
  ultimately have 4: "CallNewWriter (metaFileName blockID tenantID)
        \<notin> set (drop (length (calls s)) (calls (snd (Write env blockID tenantID meta bBloom bIndex path s))))"
    by (simp add: Write_calls)
  show ?thesis using 1 2 3 4 by blast
qed

theorem Write_source_missing_witness:
  "os_IsNotExist (stat_err env_missing ''/tmp/data'')
   \<and> fst (Write env_missing 1 ''t1'' 7 [1] [2] ''/tmp/data'' empty_store) = Some (ObjectFileNotFound ''/tmp/data'')
   \<and> objects (snd (Write env_missing 1 ''t1'' 7 [1] [2] ''/tmp/data'' empty_store)) (metaFileName 1 ''t1'') = None"
proof -
  have h: "os_IsNotExist (stat_err env_missing ''/tmp/data'')"
    by (simp add: example_defs)
  have w: "write_fault env_missing (bloomFileName 1 ''t1'') = None"
     "write_fault env_missing (indexFileName 1 ''t1'') = None"
    by (simp_all add: example_defs)
  show ?thesis
    using h w Write_source_missing [OF h, of 1 "''t1''" 7 "[1]" "[2]" empty_store]
    by (simp add: empty_store_def)
qed

text \<open>
  C1 as stated fails when the bloom write fails: Write returns that write's error, although
  the source file does not exist.
\<close>

theorem Write_source_missing_counterexample:
  "os_IsNotExist (stat_err env_missing_bucket_down ''/tmp/data'')
   \<and> fst (Write env_missing_bucket_down 1 ''t1'' 7 [1] [2] ''/tmp/data'' empty_store)
       = Some (External (ExtError ''googleapi: Error 503''))"
  by (simp add: example_defs Write_defs)

lemma steps_until_failure_butlast:
  "\<forall>st \<in> set (butlast (steps_until_failure f xs)). f st = None"
  by (induction xs) auto

lemma steps_until_failure_prefix:
  "\<exists>rest. xs = steps_until_failure f xs @ rest"
  by (induction xs) auto

lemma steps_until_failure_Nil: "steps_until_failure f xs = [] \<longleftrightarrow> xs = []"
  by (cases xs) simp_all

lemma steps_until_failure_all:
  "f (last (steps_until_failure f xs)) = None \<Longrightarrow> steps_until_failure f xs = xs"
  by (induction xs) (auto simp add: steps_until_failure_Nil split: if_splits)

text \<open>
  What holds of the errors the source checks. In every Write call the steps run in the
  order bloom write, index write, source check, source open, payload copy, meta
  serialisation, meta write, up to the first step whose checked call fails. Write returns
  the error of that step as it is, and the calls made are those of the steps that ran
  followed by the deferred closes. The objects of the steps that ran without a checked
  error are in the bucket afterwards provided their upload did not fail at \<open>Close\<close>.
\<close>

lemma Write_checked_steps:
  "fst (Write env blockID tenantID meta bBloom bIndex path s)
     = step_error env blockID tenantID meta path (last (steps_run env blockID tenantID meta path))
   \<and> (\<forall>st \<in> set (butlast (steps_run env blockID tenantID meta path)).
         step_error env blockID tenantID meta path st = None)
   \<and> (\<exists>rest. Write_steps = steps_run env blockID tenantID meta path @ rest)
   \<and> calls (snd (Write env blockID tenantID meta bBloom bIndex path s))
     = calls s
       @ concat (map (step_calls env blockID tenantID meta bBloom bIndex path)
                     (steps_run env blockID tenantID meta path))
       @ deferred_calls blockID tenantID path (steps_run env blockID tenantID meta path)
   \<and> (step_done env blockID tenantID meta path BloomWrite
        \<and> close_fault env (bloomFileName blockID tenantID) = None \<longrightarrow>
        objects (snd (Write env blockID tenantID meta bBloom bIndex path s)) (bloomFileName blockID tenantID)
          = Some bBloom)
   \<and> (step_done env blockID tenantID meta path IndexWrite
        \<and> close_fault env (indexFileName blockID tenantID) = None \<longrightarrow>
        objects (snd (Write env blockID tenantID meta bBloom bIndex path s)) (indexFileName blockID tenantID)
          = Some bIndex)
   \<and> (\<forall>src. step_done env blockID tenantID meta path PayloadCopy \<and> open_file env path = Inr src
        \<and> close_fault env (objectFileName blockID tenantID) = None \<longrightarrow>
        objects (snd (Write env blockID tenantID meta bBloom bIndex path s)) (objectFileName blockID tenantID)
          = Some (fst src))"
  using steps_until_failure_butlast [of "step_error env blockID tenantID meta path" Write_steps]
    steps_until_failure_prefix [of Write_steps "step_error env blockID tenantID meta path"]
  by (simp add: Write_result Write_calls Write_objects_bloom Write_objects_index Write_objects_data
      steps_run_def)

lemma Write_checked_steps_example:
  "fst (Write env_json_fails 1 ''t1'' 7 [1] [2] ''/tmp/data'' empty_store)
     = Some (External (ExtError ''json: unsupported value''))
   \<and> calls (snd (Write env_json_fails 1 ''t1'' 7 [1] [2] ''/tmp/data'' empty_store))
     = [CallNewWriter (bloomFileName 1 ''t1''), CallWrite (bloomFileName 1 ''t1'') [1],
        CallClose (bloomFileName 1 ''t1''),
        CallNewWriter (indexFileName 1 ''t1''), CallWrite (indexFileName 1 ''t1'') [2],
        CallClose (indexFileName 1 ''t1''),
        CallStat ''/tmp/data'', CallOpen ''/tmp/data'',
        CallNewWriter (objectFileName 1 ''t1''), CallFileRead ''/tmp/data'',
        CallWrite (objectFileName 1 ''t1'') [3, 4],
        CallMarshal,
        CallClose (objectFileName 1 ''t1''), CallFileClose ''/tmp/data'']
   \<and> objects (snd (Write env_json_fails 1 ''t1'' 7 [1] [2] ''/tmp/data'' empty_store)) (bloomFileName 1 ''t1'') = Some [1]
   \<and> objects (snd (Write env_json_fails 1 ''t1'' 7 [1] [2] ''/tmp/data'' empty_store)) (indexFileName 1 ''t1'') = Some [2]
   \<and> objects (snd (Write env_json_fails 1 ''t1'' 7 [1] [2] ''/tmp/data'' empty_store)) (objectFileName 1 ''t1'') = Some [3, 4]"
proof -
  have run: "steps_run env_json_fails 1 ''t1'' 7 ''/tmp/data''
      = [BloomWrite, IndexWrite, SourceCheck, SourceOpen, PayloadCopy, MetaSerialize]"
    by (simp add: steps_run_def Write_steps_def example_defs env_json_fails_def marshal_fails_def)
  have src: "open_file env_json_fails ''/tmp/data'' = Inr ([3, 4], None)"
    by (simp add: example_defs env_json_fails_def)
  have err: "marshal env_json_fails 7 = Inl (ExtError ''json: unsupported value'')"
    by (simp add: example_defs env_json_fails_def marshal_fails_def)
  have cl: "close_fault env_json_fails name = None" for name
    by (simp add: example_defs env_json_fails_def)
  have ok: "step_done env_json_fails 1 ''t1'' 7 ''/tmp/data'' BloomWrite"
    "step_done env_json_fails 1 ''t1'' 7 ''/tmp/data'' IndexWrite"
    "step_done env_json_fails 1 ''t1'' 7 ''/tmp/data'' PayloadCopy"
    by (simp_all add: step_done_def run) (simp_all add: example_defs env_json_fails_def)
  show ?thesis
    using Write_checked_steps [of env_json_fails 1 "''t1''" 7 "[1]" "[2]" "''/tmp/data''" empty_store]
    by (simp add: run src err ok cl deferred_calls_def empty_store_def)
qed

text \<open>
  C7 at a call where the upload of the bloom object fails: the failure is reported by
  \<open>Close\<close>, whose result \<open>writeAll\<close> drops, so Write does not abort. It runs every later
  step, writes the meta object and returns no error, and the bloom object is not in the
  bucket.
\<close>

theorem Write_runs_on_after_failed_upload:
  "close_fault env_bloom_upload_fails (bloomFileName 1 ''t1'') = Some (ExtError ''googleapi: Error 503'')
   \<and> fst (Write env_bloom_upload_fails 1 ''t1'' 7 [1] [2] ''/tmp/data'' empty_store) = None
   \<and> calls (snd (Write env_bloom_upload_fails 1 ''t1'' 7 [1] [2] ''/tmp/data'' empty_store))
     = [CallNewWriter (bloomFileName 1 ''t1''), CallWrite (bloomFileName 1 ''t1'') [1],
        CallClose (bloomFileName 1 ''t1''),
        CallNewWriter (indexFileName 1 ''t1''), CallWrite (indexFileName 1 ''t1'') [2],
        CallClose (indexFileName 1 ''t1''),
        CallStat ''/tmp/data'', CallOpen ''/tmp/data'',
        CallNewWriter (objectFileName 1 ''t1''), CallFileRead ''/tmp/data'',
        CallWrite (objectFileName 1 ''t1'') [3, 4],
        CallMarshal,
        CallNewWriter (metaFileName 1 ''t1''), CallWrite (metaFileName 1 ''t1'') [7],
        CallClose (metaFileName 1 ''t1''),
        CallClose (objectFileName 1 ''t1''), CallFileClose ''/tmp/data'']
   \<and> objects (snd (Write env_bloom_upload_fails 1 ''t1'' 7 [1] [2] ''/tmp/data'' empty_store))
         (bloomFileName 1 ''t1'') = None
   \<and> objects (snd (Write env_bloom_upload_fails 1 ''t1'' 7 [1] [2] ''/tmp/data'' empty_store))
         (metaFileName 1 ''t1'') = Some [7]"
proof -
  have cl: "close_fault env_bloom_upload_fails (bloomFileName 1 ''t1'') = Some (ExtError ''googleapi: Error 503'')"
    "close_fault env_bloom_upload_fails (indexFileName 1 ''t1'') = None"
    "close_fault env_bloom_upload_fails (objectFileName 1 ''t1'') = None"
    "close_fault env_bloom_upload_fails (metaFileName 1 ''t1'') = None"
    by (simp_all add: env_bloom_upload_fails_def bloom_upload_fails_def
        file_names_distinct file_names_distinct [symmetric])
  have other: "write_fault env_bloom_upload_fails = no_fault" "stat_err env_bloom_upload_fails = no_fault"
    "open_file env_bloom_upload_fails = file_two_bytes" "marshal env_bloom_upload_fails = marshal_byte"
    by (simp_all add: env_bloom_upload_fails_def env_ok_def)
  show ?thesis
    by (simp add: Write_defs cl other no_fault_def file_two_bytes_def marshal_byte_def empty_store_def
        file_names_distinct file_names_distinct [symmetric])
qed

text \<open>
  C10. Write returns the error \<open>object file not found\<close> only when \<open>os.Stat\<close> reports that
  the payload source does not exist. When \<open>os.Stat\<close> fails for another reason, the
  existence check passes and Write goes on to open the file, and a failure to open it is
  the error Write returns.
\<close>

theorem Write_not_found_only_from_stat:
  "(\<forall>q. fst (Write env blockID tenantID meta bBloom bIndex path s) = Some (ObjectFileNotFound q)
        \<longrightarrow> stat_err env path = Some ErrNotExist \<and> q = path)
   \<and> (\<forall>e oe. stat_err env path = Some e \<and> e \<noteq> ErrNotExist
         \<and> write_fault env (bloomFileName blockID tenantID) = None
         \<and> write_fault env (indexFileName blockID tenantID) = None
         \<and> open_file env path = Inl oe
        \<longrightarrow> fst (fileExists env path s)
          \<and> CallOpen path \<in> set (calls (snd (Write env blockID tenantID meta bBloom bIndex path s)))
          \<and> fst (Write env blockID tenantID meta bBloom bIndex path s) = Some (Os oe))"
proof -
  have "stat_err env path = Some ErrNotExist \<and> q = path"
    if "fst (Write env blockID tenantID meta bBloom bIndex path s) = Some (ObjectFileNotFound q)" for q
    using that
    by (auto simp add: Write_result steps_run_def Write_steps_def os_IsNotExist_iff
        split: if_splits sum.splits option.splits)
  moreover have "fst (fileExists env path s)
          \<and> CallOpen path \<in> set (calls (snd (Write env blockID tenantID meta bBloom bIndex path s)))
          \<and> fst (Write env blockID tenantID meta bBloom bIndex path s) = Some (Os oe)"
    if "stat_err env path = Some e" "e \<noteq> ErrNotExist"
       "write_fault env (bloomFileName blockID tenantID) = None"
       "write_fault env (indexFileName blockID tenantID) = None"
       "open_file env path = Inl oe" for e oe
    using that
    by (simp add: Write_result Write_calls steps_run_def Write_steps_def os_IsNotExist_iff fileExists_def)
  ultimately show ?thesis by blast
qed

theorem Write_not_found_only_from_stat_witness:
  "stat_err env_denied ''/tmp/data'' = Some ErrPermission
   \<and> fst (fileExists env_denied ''/tmp/data'' empty_store)
   \<and> fst (Write env_denied 1 ''t1'' 7 [1] [2] ''/tmp/data'' empty_store) = Some (Os ErrPermission)"
proof -
  have h: "stat_err env_denied ''/tmp/data'' = Some ErrPermission" "ErrPermission \<noteq> ErrNotExist"
      "write_fault env_denied (bloomFileName 1 ''t1'') = None"
      "write_fault env_denied (indexFileName 1 ''t1'') = None"
      "open_file env_denied ''/tmp/data'' = Inl ErrPermission"
    by (simp_all add: example_defs)
  show ?thesis
    using h Write_not_found_only_from_stat [of env_denied 1 "''t1''" 7 "[1]" "[2]" "''/tmp/data''" empty_store]
    by blast
qed

subsection \<open>The read loop of readRange\<close>

lemma length_copy_into: "t \<le> length buf \<Longrightarrow> length (copy_into buf t chunk) = length buf"
  by (auto simp add: copy_into_def Let_def)

lemma copy_into_append:
  "length chunk \<le> length rest \<Longrightarrow>
     copy_into (pre @ rest) (length pre) chunk = (pre @ chunk) @ drop (length chunk) rest"
  by (simp add: copy_into_def Let_def)

lemma readRange_loop_safe:
  shows "(\<forall>r k. length (fst (rd r k)) \<le> k) \<Longrightarrow> t \<le> length buf \<Longrightarrow>
     fst (readRange_loop rd r buf t) \<noteq> Some SliceBounds
     \<and> length (fst (snd (readRange_loop rd r buf t))) = length buf
     \<and> (\<forall>x \<in> set (snd (snd (readRange_loop rd r buf t))). x \<le> length buf)"
proof (induction rd r buf t rule: readRange_loop.induct)
  case (1 rd r buffer totalBytes)
  obtain chunk st r' where rd: "rd r (length buffer - totalBytes) = (chunk, st, r')"
    by (cases "rd r (length buffer - totalBytes)") auto
  have fit: "length chunk \<le> length buffer - totalBytes"
    using "1.prems"(1) rd by (metis fst_conv)
  show ?case
  proof (cases "st = ReadOk \<and> length chunk \<noteq> 0")
    case False
    then show ?thesis
      using "1.prems" rd
      by (cases st) (auto simp add: length_copy_into readRange_loop.simps [of rd r buffer totalBytes])
  next
    case True
    have le: "totalBytes + length chunk \<le> length (copy_into buffer totalBytes chunk)"
      using fit "1.prems" by (simp add: length_copy_into)
    have IH: "fst (readRange_loop rd r' (copy_into buffer totalBytes chunk) (totalBytes + length chunk)) \<noteq> Some SliceBounds
     \<and> length (fst (snd (readRange_loop rd r' (copy_into buffer totalBytes chunk) (totalBytes + length chunk)))) = length (copy_into buffer totalBytes chunk)
     \<and> (\<forall>x \<in> set (snd (snd (readRange_loop rd r' (copy_into buffer totalBytes chunk) (totalBytes + length chunk)))). x \<le> length (copy_into buffer totalBytes chunk))"
      using "1.IH" [OF _ rd [symmetric] refl _ _ "1.prems"(1) le] True "1.prems" by simp
    show ?thesis
      using True "1.prems" rd IH
      by (auto simp add: length_copy_into readRange_loop.simps [of rd r buffer totalBytes] split: prod.splits)
  qed
qed


lemma gcs_loop_exact:
  assumes pos: "\<forall>l \<in> set plan. 0 < l"
  shows "fst (readRange_loop gcs_Read \<lparr>remaining = up, limits = plan\<rparr> (pre @ rest) (length pre)) = None
       \<and> fst (snd (readRange_loop gcs_Read \<lparr>remaining = up, limits = plan\<rparr> (pre @ rest) (length pre)))
           = pre @ take (length rest) up @ drop (length up) rest"
  using pos
proof (induction "length rest" arbitrary: pre rest up plan rule: less_induct)
  case less
  let ?L = "readRange_loop gcs_Read \<lparr>remaining = up, limits = plan\<rparr> (pre @ rest) (length pre)"
  show ?case
  proof (cases "up = []")
    case True
    then show ?thesis
      by (simp add: readRange_loop.simps [of gcs_Read _ "pre @ rest" "length pre"] gcs_Read_def copy_into_def)
  next
    case False
    define n where "n = (case plan of [] \<Rightarrow> length rest | l # ls \<Rightarrow> min l (length rest))"
    have rd: "gcs_Read \<lparr>remaining = up, limits = plan\<rparr> (length (pre @ rest) - length pre)
               = (take n up, ReadOk, \<lparr>remaining = drop n up, limits = tl plan\<rparr>)"
      using False by (simp add: gcs_Read_def n_def Let_def)
    have n_le: "n \<le> length rest" by (simp add: n_def split: list.splits)
    show ?thesis
    proof (cases "rest = []")
      case True
      then have "n = 0" using n_le by simp
      then show ?thesis
        using True rd
        by (simp add: readRange_loop.simps [of gcs_Read _ pre "length pre"] copy_into_def)
    next
      case rest: False
      have n_pos: "0 < n" using rest less.prems by (auto simp add: n_def split: list.splits)
      define c where "c = length (take n up)"
      have len: "length (take n up) = c" by (simp add: c_def)
      have c_pos: "0 < c" using n_pos False by (simp add: c_def)
      have c_le: "c \<le> length rest" using n_le by (simp add: c_def)
      have copy: "copy_into (pre @ rest) (length pre) (take n up) = (pre @ take n up) @ drop c rest"
        using c_le unfolding c_def by (rule copy_into_append)
      have tl: "\<forall>l \<in> set (tl plan). 0 < l"
        using less.prems by (cases plan) auto
      have smaller: "length (drop c rest) < length rest" using c_pos rest by simp
      note IH = less.hyps [OF smaller tl, of "drop n up" "pre @ take n up"]
      have step: "?L = (case readRange_loop gcs_Read \<lparr>remaining = drop n up, limits = tl plan\<rparr>
                               ((pre @ take n up) @ drop c rest) (length (pre @ take n up)) of
                        (res, b, sl) \<Rightarrow> (res, b, length pre # sl))"
        using rd c_pos copy len
        by (simp add: readRange_loop.simps [of gcs_Read _ "pre @ rest" "length pre"] del: length_take)
      have bytes: "take n up @ take (length rest - c) (drop n up) @ drop (length up - n) (drop c rest)
                   = take (length rest) up @ drop (length up) rest"
      proof (cases "n \<le> length up")
        case True
        then have "c = n" by (simp add: c_def)
        moreover have "take n up @ take (length rest - n) (drop n up) = take (length rest) up"
          using n_le by (metis le_add_diff_inverse take_add)
        ultimately show ?thesis using True by simp
      next
        case False
        then have "c = length up" "drop n up = []" "take n up = up" by (simp_all add: c_def)
        then show ?thesis using c_le by simp
      qed
      show ?thesis
        using IH bytes by (auto simp add: step split: prod.splits)
    qed
  qed
qed


lemma gcs_loop_partial:
  "\<exists>n. n \<le> length rest \<and> n \<le> length up
       \<and> fst (readRange_loop gcs_Read \<lparr>remaining = up, limits = plan\<rparr> (pre @ rest) (length pre)) = None
       \<and> fst (snd (readRange_loop gcs_Read \<lparr>remaining = up, limits = plan\<rparr> (pre @ rest) (length pre)))
           = pre @ take n up @ drop n rest"
proof (induction "length rest" arbitrary: pre rest up plan rule: less_induct)
  case less
  let ?L = "readRange_loop gcs_Read \<lparr>remaining = up, limits = plan\<rparr> (pre @ rest) (length pre)"
  show ?case
  proof (cases "up = []")
    case True
    then have "fst ?L = None \<and> fst (snd ?L) = pre @ take 0 up @ drop 0 rest"
      by (simp add: readRange_loop.simps [of gcs_Read _ "pre @ rest" "length pre"] gcs_Read_def copy_into_def)
    then show ?thesis by (intro exI [of _ 0]) simp
  next
    case False
    define n where "n = (case plan of [] \<Rightarrow> length rest | l # ls \<Rightarrow> min l (length rest))"
    have rd: "gcs_Read \<lparr>remaining = up, limits = plan\<rparr> (length (pre @ rest) - length pre)
               = (take n up, ReadOk, \<lparr>remaining = drop n up, limits = tl plan\<rparr>)"
      using False by (simp add: gcs_Read_def n_def Let_def)
    have n_le: "n \<le> length rest" by (simp add: n_def split: list.splits)
    define c where "c = length (take n up)"
    have len: "length (take n up) = c" by (simp add: c_def)
    have c_le: "c \<le> length rest" "c \<le> length up" using n_le by (simp_all add: c_def)
    have copy: "copy_into (pre @ rest) (length pre) (take n up) = (pre @ take n up) @ drop c rest"
      using c_le(1) unfolding c_def by (rule copy_into_append)
    show ?thesis
    proof (cases "c = 0")
      case True
      then have "take n up = []" using len by (metis length_0_conv)
      then have "fst ?L = None \<and> fst (snd ?L) = pre @ take 0 up @ drop 0 rest"
        using rd copy True
        by (simp add: readRange_loop.simps [of gcs_Read _ "pre @ rest" "length pre"] del: length_take)
      then show ?thesis by (intro exI [of _ 0]) simp
    next
      case c_pos: False
      have smaller: "length (drop c rest) < length rest" using c_pos c_le by simp
      from less.hyps [OF smaller, of "drop n up" "tl plan" "pre @ take n up"]
      obtain m where m: "m \<le> length (drop c rest)" "m \<le> length (drop n up)"
        and IH: "fst (readRange_loop gcs_Read \<lparr>remaining = drop n up, limits = tl plan\<rparr>
                   ((pre @ take n up) @ drop c rest) (length (pre @ take n up))) = None"
          "fst (snd (readRange_loop gcs_Read \<lparr>remaining = drop n up, limits = tl plan\<rparr>
                   ((pre @ take n up) @ drop c rest) (length (pre @ take n up))))
             = (pre @ take n up) @ take m (drop n up) @ drop m (drop c rest)"
        by blast
      have step: "?L = (case readRange_loop gcs_Read \<lparr>remaining = drop n up, limits = tl plan\<rparr>
                               ((pre @ take n up) @ drop c rest) (length (pre @ take n up)) of
                        (res, b, sl) \<Rightarrow> (res, b, length pre # sl))"
        using rd c_pos copy len
        by (simp add: readRange_loop.simps [of gcs_Read _ "pre @ rest" "length pre"] del: length_take)
      have bytes: "take n up @ take m (drop n up) = take (c + m) up"
      proof (cases "n \<le> length up")
        case True
        then have "c = n" by (simp add: c_def)
        then show ?thesis by (simp add: take_add)
      next
        case False
        then have "c = length up" "drop n up = []" "take n up = up" by (simp_all add: c_def)
        then show ?thesis by simp
      qed
      have bound: "c + m \<le> length rest" "c + m \<le> length up"
        using m c_le by (auto simp add: c_def)
      have "fst ?L = None \<and> fst (snd ?L) = pre @ take (c + m) up @ drop (c + m) rest"
        using IH bytes by (auto simp add: step add.commute split: prod.splits)
      then show ?thesis using bound by (intro exI [of _ "c + m"]) simp
    qed
  qed
qed

lemma gcs_Read_fits: "length (fst (gcs_Read r k)) \<le> k"
  by (auto simp add: gcs_Read_def Let_def split: list.splits)

text \<open>Without that contract the loop does run out of the buffer.\<close>

lemma over_Read_panics:
  "readRange_loop over_Read () [0] 0 = (Some SliceBounds, [9], [0, 2])"
  by (simp add: readRange_loop.simps over_Read_def copy_into_def)

text \<open>
  C9. When every read of the underlying stream returns at most as many bytes as the
  slice it is given is long, \<open>totalBytes\<close> is at most the length of the buffer at every
  slice expression \<open>buffer[totalBytes:]\<close> of the loop, the loop never panics on a slice
  out of bounds, and the buffer keeps its length.
\<close>

theorem readRange_within_bounds:
  assumes "\<forall>r k. length (fst (rr_Read rr r k)) \<le> k"
  shows "fst (readRange_loop (rr_Read rr) r buffer 0) \<noteq> Some SliceBounds
       \<and> (\<forall>t \<in> set (snd (snd (readRange_loop (rr_Read rr) r buffer 0))). t \<le> length buffer)
       \<and> length (fst (snd (readRange_loop (rr_Read rr) r buffer 0))) = length buffer
       \<and> fst (readRange rr name offset buffer s) \<noteq> Some SliceBounds
       \<and> length (snd (readRange rr name offset buffer s)) = length buffer"
proof -
  have loop: "fst (readRange_loop (rr_Read rr) r' buffer 0) \<noteq> Some SliceBounds
       \<and> length (fst (snd (readRange_loop (rr_Read rr) r' buffer 0))) = length buffer
       \<and> (\<forall>t \<in> set (snd (snd (readRange_loop (rr_Read rr) r' buffer 0))). t \<le> length buffer)" for r'
    using readRange_loop_safe [OF assms, of 0 buffer r'] by simp
  have "fst (readRange rr name offset buffer s) \<noteq> Some SliceBounds
       \<and> length (snd (readRange rr name offset buffer s)) = length buffer"
  proof (cases "rr_New rr (objects s) name offset (int (length buffer))")
    case (Inl err)
    then show ?thesis by (simp add: readRange_def)
  next
    case (Inr r')
    then show ?thesis using loop [of r'] by (auto simp add: readRange_def split: prod.splits)
  qed
  then show ?thesis using loop [of r] by blast
qed

theorem readRange_within_bounds_witness:
  "(\<forall>r k. length (fst (rr_Read (gcs_ranger [1, 1, 1]) r k)) \<le> k)
   \<and> readRange_loop (rr_Read (gcs_ranger [1, 1, 1])) \<lparr>remaining = [5, 6, 7], limits = [1, 1, 1]\<rparr> [0, 0] 0
       = (None, [5, 6], [0, 1, 2])
   \<and> fst (readRange_loop (rr_Read (gcs_ranger [1, 1, 1])) \<lparr>remaining = [5, 6, 7], limits = [1, 1, 1]\<rparr> [0, 0] 0)
       \<noteq> Some SliceBounds"
proof -
  have h: "\<forall>r k. length (fst (rr_Read (gcs_ranger [1, 1, 1]) r k)) \<le> k"
    by (simp add: gcs_ranger_def gcs_Read_fits)
  have run: "readRange_loop (rr_Read (gcs_ranger [1, 1, 1])) \<lparr>remaining = [5, 6, 7], limits = [1, 1, 1]\<rparr> [0, 0] 0
       = (None, [5, 6], [0, 1, 2])"
    by (simp add: gcs_ranger_def readRange_loop.simps gcs_Read_def copy_into_def)
  show ?thesis
    using h run readRange_within_bounds [OF h, of "\<lparr>remaining = [5, 6, 7], limits = [1, 1, 1]\<rparr>" "[0, 0]"]
    by blast
qed

lemma gcs_loop_from_start:
  assumes "\<forall>l \<in> set plan. 0 < l"
  shows "\<exists>sl. readRange_loop gcs_Read \<lparr>remaining = up, limits = plan\<rparr> buffer 0
           = (None, take (length buffer) up @ drop (length up) buffer, sl)"
  using gcs_loop_exact [OF assms, of up "[]" buffer]
  by (cases "readRange_loop gcs_Read \<lparr>remaining = up, limits = plan\<rparr> buffer 0") simp

lemma gcs_loop_from_start_partial:
  "\<exists>n sl. n \<le> length buffer \<and> n \<le> length up
      \<and> readRange_loop gcs_Read \<lparr>remaining = up, limits = plan\<rparr> buffer 0
           = (None, take n up @ drop n buffer, sl)"
  using gcs_loop_partial [of buffer up plan "[]"]
  by (cases "readRange_loop gcs_Read \<lparr>remaining = up, limits = plan\<rparr> buffer 0") auto

text \<open>
  C4. An \<open>Object\<close> call on a stored payload, from a non-negative offset, always succeeds
  with a prefix of the buffer filled from the payload at that offset and the rest of the
  buffer untouched (a read of zero bytes or the end of the data stops the loop without
  error). When every read delivers at least one byte, however few (short reads), the loop
  goes on into the remaining space until the buffer is full or the data ends: the buffer
  holds the requested range as far as the payload reaches, and all of it when the payload
  has enough bytes.
\<close>

theorem Object_read_loop:
  assumes "objects s (objectFileName blockID tenantID) = Some d" and "0 \<le> sint start"
  shows "(\<exists>n \<le> min (length buffer) (length d - nat (sint start)).
            Object (gcs_ranger plan) blockID tenantID start buffer s
              = (None, take n (drop (nat (sint start)) d) @ drop n buffer))
       \<and> ((\<forall>l \<in> set plan. 0 < l) \<longrightarrow>
            Object (gcs_ranger plan) blockID tenantID start buffer s
              = (None, take (length buffer) (drop (nat (sint start)) d)
                       @ drop (length d - nat (sint start)) buffer))
       \<and> ((\<forall>l \<in> set plan. 0 < l) \<and> nat (sint start) + length buffer \<le> length d \<longrightarrow>
            Object (gcs_ranger plan) blockID tenantID start buffer s
              = (None, take (length buffer) (drop (nat (sint start)) d)))"
proof -
  define up where "up = take (length buffer) (drop (nat (sint start)) d)"
  have obj: "Object (gcs_ranger plan) blockID tenantID start buffer s
      = (case readRange_loop gcs_Read \<lparr>remaining = up, limits = plan\<rparr> buffer 0 of
           (res, buffer', slices) \<Rightarrow> (res, buffer'))"
    using assms
    by (simp add: Object_def readRange_def gcs_ranger_def gcs_NewRangeReader_def up_def)
  have len: "length up = min (length buffer) (length d - nat (sint start))"
    by (simp add: up_def)
  obtain n sl where n: "n \<le> length buffer" "n \<le> length up"
    and loop: "readRange_loop gcs_Read \<lparr>remaining = up, limits = plan\<rparr> buffer 0
           = (None, take n up @ drop n buffer, sl)"
    using gcs_loop_from_start_partial by blast
  have "take n up = take n (drop (nat (sint start)) d)"
    using n(1) by (simp add: up_def min_def)
  then have 1: "\<exists>n \<le> min (length buffer) (length d - nat (sint start)).
            Object (gcs_ranger plan) blockID tenantID start buffer s
              = (None, take n (drop (nat (sint start)) d) @ drop n buffer)"
    using n len loop by (intro exI [of _ n]) (simp add: obj)
  have 2: "Object (gcs_ranger plan) blockID tenantID start buffer s
              = (None, take (length buffer) (drop (nat (sint start)) d)
                       @ drop (length d - nat (sint start)) buffer)"
    if pos: "\<forall>l \<in> set plan. 0 < l"
  proof -
    obtain sl' where "readRange_loop gcs_Read \<lparr>remaining = up, limits = plan\<rparr> buffer 0
           = (None, take (length buffer) up @ drop (length up) buffer, sl')"
      using gcs_loop_from_start [OF pos] by blast
    moreover have "take (length buffer) up = take (length buffer) (drop (nat (sint start)) d)"
      by (simp add: up_def)
    moreover have "drop (length up) buffer = drop (length d - nat (sint start)) buffer"
      by (simp add: len min_def)
    ultimately show ?thesis by (simp add: obj)
  qed
  have 3: "Object (gcs_ranger plan) blockID tenantID start buffer s
              = (None, take (length buffer) (drop (nat (sint start)) d))"
    if "\<forall>l \<in> set plan. 0 < l" "nat (sint start) + length buffer \<le> length d"
    using 2 [OF that(1)] that(2) by simp
  show ?thesis using 1 2 3 by blast
qed

theorem Object_read_loop_witness:
  "objects payload_store (objectFileName 1 ''t1'') = Some [10, 20, 30, 40, 50]
   \<and> Object (gcs_ranger [1, 2]) 1 ''t1'' 1 [0, 0, 0] payload_store = (None, [20, 30, 40])"
proof -
  have h: "objects payload_store (objectFileName 1 ''t1'') = Some [10, 20, 30, 40, 50]"
    "0 \<le> sint (1 :: 64 word)"
    by (simp_all add: payload_store_def)
  show ?thesis
    using h Object_read_loop [OF h, of "[0, 0, 0]" "[1, 2]"] by simp
qed

subsection \<open>Reading back what Write wrote\<close>

lemma Write_success_steps:
  assumes "fst (Write env blockID tenantID meta bBloom bIndex path s) = None"
  shows "steps_run env blockID tenantID meta path = Write_steps"
  using assms unfolding Write_result steps_run_def by (rule steps_until_failure_all)

lemma Write_success_done:
  assumes "fst (Write env blockID tenantID meta bBloom bIndex path s) = None"
  shows "step_done env blockID tenantID meta path st"
proof -
  have run: "steps_run env blockID tenantID meta path = Write_steps"
    using assms by (rule Write_success_steps)
  have "\<forall>st \<in> set (butlast Write_steps). step_error env blockID tenantID meta path st = None"
    using steps_until_failure_butlast [of "step_error env blockID tenantID meta path" Write_steps] run
    by (simp add: steps_run_def)
  moreover have "step_error env blockID tenantID meta path (last Write_steps) = None"
    using assms run by (simp add: Write_result)
  ultimately have "step_error env blockID tenantID meta path st = None"
    by (cases st) (simp_all add: Write_steps_def)
  moreover have "st \<in> set Write_steps"
    by (cases st) (simp_all add: Write_steps_def)
  ultimately show ?thesis by (simp add: step_done_def run)
qed

lemma readAll_stored:
  assumes "objects s name = Some bs" "reader_fault env name = None" "readall_fault env name = None"
  shows "readAll env name s = (bs, None)"
  using assms by (simp add: readAll_def NewReader_def ioutil_ReadAll_def)

text \<open>
  When no upload fails at \<open>Close\<close>: after a Write that returns no error, with bloom bytes,
  index bytes, the bytes of the source file and a metadata record that \<open>json.Unmarshal\<close>
  reads back from what \<open>json.Marshal\<close> made of it, and with readers that do not fail and
  deliver at least one byte per read, \<open>Bloom\<close> returns the bloom bytes, \<open>Index\<close> the index
  bytes, \<open>BlockMeta\<close> the record, and \<open>Object\<close> from offset 0 into a buffer of the
  payload's length the payload.
\<close>

lemma Write_read_round_trip:
  assumes ok: "fst (Write env blockID tenantID meta bBloom bIndex path s) = None"
    and uploads: "\<forall>name. close_fault env name = None"
    and src: "open_file env path = Inr (bObject, rerr)"
    and json: "\<forall>bs. marshal env meta = Inr bs \<longrightarrow> unmarshal env bs = Inr meta"
    and readers: "\<forall>name. reader_fault env name = None" "\<forall>name. readall_fault env name = None"
    and plan: "\<forall>l \<in> set plan. 0 < l"
    and buffer: "length buffer = length bObject"
  shows "Bloom env blockID tenantID (snd (Write env blockID tenantID meta bBloom bIndex path s)) = (bBloom, None)
       \<and> Index env blockID tenantID (snd (Write env blockID tenantID meta bBloom bIndex path s)) = (bIndex, None)
       \<and> BlockMeta env blockID tenantID (snd (Write env blockID tenantID meta bBloom bIndex path s)) = Inr meta
       \<and> Object (gcs_ranger plan) blockID tenantID 0 buffer (snd (Write env blockID tenantID meta bBloom bIndex path s))
           = (None, bObject)"
proof -
  let ?s' = "snd (Write env blockID tenantID meta bBloom bIndex path s)"
  note all_done = Write_success_done [OF ok]
  have bloom: "objects ?s' (bloomFileName blockID tenantID) = Some bBloom"
    using all_done uploads by (simp add: Write_objects_bloom)
  have index: "objects ?s' (indexFileName blockID tenantID) = Some bIndex"
    using all_done uploads by (simp add: Write_objects_index)
  have data: "objects ?s' (objectFileName blockID tenantID) = Some bObject"
    using Write_objects_data [OF all_done src] uploads by simp
  obtain bMeta where bMeta: "marshal env meta = Inr bMeta"
    using all_done [of MetaSerialize] by (auto simp add: step_done_def split: sum.splits)
  have metao: "objects ?s' (metaFileName blockID tenantID) = Some bMeta"
    using all_done bMeta uploads by (simp add: Write_objects_meta)
  have 1: "Bloom env blockID tenantID ?s' = (bBloom, None)"
    using bloom readers by (simp add: Bloom_def readAll_stored)
  have 2: "Index env blockID tenantID ?s' = (bIndex, None)"
    using index readers by (simp add: Index_def readAll_stored)
  have 3: "BlockMeta env blockID tenantID ?s' = Inr meta"
    using metao readers json bMeta by (simp add: BlockMeta_def readAll_stored)
  have 4: "Object (gcs_ranger plan) blockID tenantID 0 buffer ?s' = (None, bObject)"
    using Object_read_loop [OF data, of 0 buffer plan] plan buffer by simp
  show ?thesis using 1 2 3 4 by blast
qed

lemma Write_read_round_trip_example:
  "fst (Write env_ok 1 ''t1'' 7 [1] [2] ''/tmp/data'' empty_store) = None
   \<and> Bloom env_ok 1 ''t1'' (snd (Write env_ok 1 ''t1'' 7 [1] [2] ''/tmp/data'' empty_store)) = ([1], None)
   \<and> Index env_ok 1 ''t1'' (snd (Write env_ok 1 ''t1'' 7 [1] [2] ''/tmp/data'' empty_store)) = ([2], None)
   \<and> BlockMeta env_ok 1 ''t1'' (snd (Write env_ok 1 ''t1'' 7 [1] [2] ''/tmp/data'' empty_store)) = Inr 7
   \<and> Object (gcs_ranger [1]) 1 ''t1'' 0 [0, 0] (snd (Write env_ok 1 ''t1'' 7 [1] [2] ''/tmp/data'' empty_store))
       = (None, [3, 4])"
proof -
  have ok: "fst (Write env_ok 1 ''t1'' 7 [1] [2] ''/tmp/data'' empty_store) = None"
    by (simp add: Write_result steps_run_def Write_steps_def example_defs)
  have src: "open_file env_ok ''/tmp/data'' = Inr ([3, 4], None)"
    by (simp add: example_defs)
  have json: "\<forall>bs. marshal env_ok 7 = Inr bs \<longrightarrow> unmarshal env_ok bs = Inr 7"
    by (simp add: example_defs)
  have readers: "\<forall>name. reader_fault env_ok name = None" "\<forall>name. readall_fault env_ok name = None"
    by (simp_all add: example_defs)
  have uploads: "\<forall>name. close_fault env_ok name = None"
    by (simp add: example_defs)
  have plan: "\<forall>l \<in> set [1 :: nat]. 0 < l" by simp
  have buffer: "length [0 :: byte, 0] = length [3 :: byte, 4]" by simp
  show ?thesis
    using ok Write_read_round_trip [OF ok uploads src json readers plan buffer] by simp
qed

text \<open>
  C3 at a call where every upload fails when its writer is closed: Write discards what
  \<open>Close\<close> returns and reports success, although none of the four objects is in the
  bucket, and \<open>Bloom\<close>, \<open>Index\<close>, \<open>BlockMeta\<close> and \<open>Object\<close> then fail with the error of
  an object that does not exist instead of returning what was written.
\<close>

theorem Write_success_without_objects:
  "fst (Write env_uploads_fail 1 ''t1'' 7 [1] [2] ''/tmp/data'' empty_store) = None
   \<and> objects (snd (Write env_uploads_fail 1 ''t1'' 7 [1] [2] ''/tmp/data'' empty_store)) = Map.empty
   \<and> Bloom env_uploads_fail 1 ''t1'' (snd (Write env_uploads_fail 1 ''t1'' 7 [1] [2] ''/tmp/data'' empty_store))
       = ([], Some (External ErrObjectNotExist))
   \<and> Index env_uploads_fail 1 ''t1'' (snd (Write env_uploads_fail 1 ''t1'' 7 [1] [2] ''/tmp/data'' empty_store))
       = ([], Some (External ErrObjectNotExist))
   \<and> BlockMeta env_uploads_fail 1 ''t1'' (snd (Write env_uploads_fail 1 ''t1'' 7 [1] [2] ''/tmp/data'' empty_store))
       = Inl (External ErrObjectNotExist)
   \<and> Object (gcs_ranger []) 1 ''t1'' 0 [0, 0] (snd (Write env_uploads_fail 1 ''t1'' 7 [1] [2] ''/tmp/data'' empty_store))
       = (Some (External ErrObjectNotExist), [0, 0])"
proof -
  have r: "fst (Write env_uploads_fail 1 ''t1'' 7 [1] [2] ''/tmp/data'' empty_store) = None"
    by (simp add: Write_defs env_uploads_fail_def example_defs)
  have o: "objects (snd (Write env_uploads_fail 1 ''t1'' 7 [1] [2] ''/tmp/data'' empty_store)) = Map.empty"
    by (simp add: Write_defs env_uploads_fail_def example_defs)
  have f: "reader_fault env_uploads_fail name = None" for name
    by (simp add: env_uploads_fail_def example_defs)
  show ?thesis
    by (simp add: r o f Bloom_def Index_def BlockMeta_def readAll_def NewReader_def
        Object_def readRange_def gcs_ranger_def gcs_NewRangeReader_def)
qed

subsection \<open>The order in which the objects come into being\<close>

text \<open>
  The writer of the payload is closed by a \<open>defer\<close>, that is when \<open>Write\<close> returns, after
  \<open>writeAll\<close> has written and closed the meta object: of the four objects the payload is
  the last to come into being, not the meta object.
\<close>

lemma Write_success_close_order:
  assumes "fst (Write env blockID tenantID meta bBloom bIndex path s) = None"
  shows "closed_writers (drop (length (calls s)) (calls (snd (Write env blockID tenantID meta bBloom bIndex path s))))
    = [bloomFileName blockID tenantID, indexFileName blockID tenantID,
       metaFileName blockID tenantID, objectFileName blockID tenantID]"
proof -
  have run: "steps_run env blockID tenantID meta path = Write_steps"
    using assms by (rule Write_success_steps)
  obtain bMeta where bMeta: "marshal env meta = Inr bMeta"
    using Write_success_done [OF assms, of MetaSerialize]
    by (auto simp add: step_done_def split: sum.splits)
  obtain src where src: "open_file env path = Inr src"
    using Write_success_done [OF assms, of SourceOpen]
    by (auto simp add: step_done_def split: sum.splits)
  show ?thesis
    by (simp add: Write_calls run Write_steps_def deferred_calls_def bMeta src)
qed

text \<open>
  C2 at a concrete call on a working bucket: the bytes are handed to the writers in the
  order bloom, index, payload, meta, but the writers are closed, and the objects created,
  in the order bloom, index, meta, payload.
\<close>

theorem Write_closes_payload_after_meta:
  "fst (Write env_ok 1 ''t1'' 7 [1] [2] ''/tmp/data'' empty_store) = None
   \<and> calls (snd (Write env_ok 1 ''t1'' 7 [1] [2] ''/tmp/data'' empty_store))
     = [CallNewWriter (bloomFileName 1 ''t1''), CallWrite (bloomFileName 1 ''t1'') [1],
        CallClose (bloomFileName 1 ''t1''),
        CallNewWriter (indexFileName 1 ''t1''), CallWrite (indexFileName 1 ''t1'') [2],
        CallClose (indexFileName 1 ''t1''),
        CallStat ''/tmp/data'', CallOpen ''/tmp/data'',
        CallNewWriter (objectFileName 1 ''t1''), CallFileRead ''/tmp/data'',
        CallWrite (objectFileName 1 ''t1'') [3, 4],
        CallMarshal,
        CallNewWriter (metaFileName 1 ''t1''), CallWrite (metaFileName 1 ''t1'') [7],
        CallClose (metaFileName 1 ''t1''),
        CallClose (objectFileName 1 ''t1''), CallFileClose ''/tmp/data'']
   \<and> closed_writers (calls (snd (Write env_ok 1 ''t1'' 7 [1] [2] ''/tmp/data'' empty_store)))
     = [''t1/00000000-0000-0000-0000-000000000001/bloom'',
        ''t1/00000000-0000-0000-0000-000000000001/index'',
        ''t1/00000000-0000-0000-0000-000000000001/meta.json'',
        ''t1/00000000-0000-0000-0000-000000000001/data'']"
proof -
  have names: "bloomFileName 1 ''t1'' = ''t1/00000000-0000-0000-0000-000000000001/bloom''"
    "indexFileName 1 ''t1'' = ''t1/00000000-0000-0000-0000-000000000001/index''"
    "metaFileName 1 ''t1'' = ''t1/00000000-0000-0000-0000-000000000001/meta.json''"
    "objectFileName 1 ''t1'' = ''t1/00000000-0000-0000-0000-000000000001/data''"
    by (simp_all add: file_names_plain_tenant uuid_String_1)
  have c: "calls (snd (Write env_ok 1 ''t1'' 7 [1] [2] ''/tmp/data'' empty_store))
     = [CallNewWriter (bloomFileName 1 ''t1''), CallWrite (bloomFileName 1 ''t1'') [1],
        CallClose (bloomFileName 1 ''t1''),
        CallNewWriter (indexFileName 1 ''t1''), CallWrite (indexFileName 1 ''t1'') [2],
        CallClose (indexFileName 1 ''t1''),
        CallStat ''/tmp/data'', CallOpen ''/tmp/data'',
        CallNewWriter (objectFileName 1 ''t1''), CallFileRead ''/tmp/data'',
        CallWrite (objectFileName 1 ''t1'') [3, 4],
        CallMarshal,
        CallNewWriter (metaFileName 1 ''t1''), CallWrite (metaFileName 1 ''t1'') [7],
        CallClose (metaFileName 1 ''t1''),
        CallClose (objectFileName 1 ''t1''), CallFileClose ''/tmp/data'']"
    by (simp add: Write_defs example_defs)
  have r: "fst (Write env_ok 1 ''t1'' 7 [1] [2] ''/tmp/data'' empty_store) = None"
    by (simp add: Write_defs example_defs)
  show ?thesis
    unfolding c by (simp add: r names)
qed

subsection \<open>Listings\<close>

lemma last_failure_Cons:
  "last_failure (f # fs) = (case last_failure fs of None \<Rightarrow> Some f | Some g \<Rightarrow> Some g)"
  by (simp add: last_failure_def)

text \<open>
  When the iterator reaches \<open>iterator.Done\<close> the loops return: the entries read (for
  Blocks the identifiers parsed), in order, and the last failure met.
\<close>

lemma Tenants_loop_produces:
  "produces iter_Next iter xs \<Longrightarrow>
   Tenants_loop iter_Next iter tenants warning =
     Some (tenants @ map (\<lambda>a. strings_TrimSuffix (Prefix a) ''/'') (entries xs),
           case last_failure (Tenants_failures xs) of None \<Rightarrow> warning | Some w \<Rightarrow> Some w)"
proof (induction xs arbitrary: iter tenants warning)
  case Nil
  then show ?case
    by (subst Tenants_loop.simps) (simp add: last_failure_def)
next
  case (Cons x xs)
  from Cons.prems obtain iter' where nxt: "iter_Next iter = Some (x, iter')"
    and rest: "produces iter_Next iter' xs"
    by (auto split: option.splits)
  show ?case
    by (subst Tenants_loop.simps, cases x)
       (simp_all add: nxt Cons.IH [OF rest] last_failure_Cons split: option.splits)
qed

lemma Blocks_loop_produces:
  "produces iter_Next iter xs \<Longrightarrow>
   Blocks_loop parse tenantID iter_Next iter blocks warning =
     Some (blocks @ parsed_blocks parse tenantID xs,
           case last_failure (Blocks_failures parse tenantID xs) of None \<Rightarrow> warning | Some w \<Rightarrow> Some w)"
proof (induction xs arbitrary: iter blocks warning)
  case Nil
  then show ?case
    by (subst Blocks_loop.simps) (simp add: last_failure_def)
next
  case (Cons x xs)
  from Cons.prems obtain iter' where nxt: "iter_Next iter = Some (x, iter')"
    and rest: "produces iter_Next iter' xs"
    by (auto split: option.splits)
  show ?case
    by (subst Blocks_loop.simps, cases x)
       (simp_all add: nxt Cons.IH [OF rest] last_failure_Cons split: option.splits sum.splits)
qed

lemma listings_that_end:
  assumes "produces iter_Next iter xs"
  shows "Tenants iter_Next iter
     = Some (map (\<lambda>a. strings_TrimSuffix (Prefix a) ''/'') (entries xs), last_failure (Tenants_failures xs))"
    and "Blocks parse tenantID iter_Next iter
     = Some (parsed_blocks parse tenantID xs, last_failure (Blocks_failures parse tenantID xs))"
  using assms
  by (simp_all add: Tenants_def Blocks_def Tenants_loop_produces Blocks_loop_produces split: option.splits)

lemma produces_list_Next: "produces list_Next xs xs"
  by (induction xs) (simp_all add: list_Next_def)

text \<open>
  An iterator whose error stays never answers \<open>iterator.Done\<close>, and the loops, which go on
  to the next call after an error, never return.
\<close>

lemma Tenants_loop_broken:
  assumes "Tenants_loop iter_Next iter tenants warning = Some res"
  shows "iter_Next \<noteq> broken_Next err"
proof (rule Tenants_loop.raw_induct
    [where P = "\<lambda>iter_Next iter tenants warning res. iter_Next \<noteq> broken_Next err", OF _ assms])
  fix loop :: "(next_result list \<Rightarrow> (next_result \<times> next_result list) option) \<Rightarrow> next_result list
      \<Rightarrow> string list \<Rightarrow> error option \<Rightarrow> (string list \<times> error option) option"
    and nxt iter tenants warning res
  assume IH: "\<And>nxt iter tenants warning res. loop nxt iter tenants warning = Some res
      \<Longrightarrow> nxt \<noteq> broken_Next err"
    and step: "(case nxt iter of
        None \<Rightarrow> Some (tenants, warning)
      | Some (Entry a, iter') \<Rightarrow> loop nxt iter' (tenants @ [strings_TrimSuffix (Prefix a) ''/'']) warning
      | Some (NextErr err, iter') \<Rightarrow> loop nxt iter' tenants (Some (External err))) = Some res"
  show "nxt \<noteq> broken_Next err"
  proof
    assume b: "nxt = broken_Next err"
    show False
    proof (cases iter)
      case Nil
      then have "loop nxt [] tenants (Some (External err)) = Some res"
        using step b by (simp add: broken_Next_def)
      then show ?thesis using IH b by blast
    next
      case (Cons x rest)
      then have "\<exists>tenants' warning'. loop nxt rest tenants' warning' = Some res"
        using step b by (cases x) (auto simp add: broken_Next_def)
      then show ?thesis using IH b by blast
    qed
  qed
qed

lemma Blocks_loop_broken:
  assumes "Blocks_loop parse tenantID iter_Next iter blocks warning = Some res"
  shows "iter_Next \<noteq> broken_Next err"
proof (rule Blocks_loop.raw_induct
    [where P = "\<lambda>parse tenantID iter_Next iter blocks warning res. iter_Next \<noteq> broken_Next err",
     OF _ assms])
  fix loop :: "(string \<Rightarrow> ext_error + uuid) \<Rightarrow> string
      \<Rightarrow> (next_result list \<Rightarrow> (next_result \<times> next_result list) option) \<Rightarrow> next_result list
      \<Rightarrow> uuid list \<Rightarrow> error option \<Rightarrow> (uuid list \<times> error option) option"
    and parse tenantID nxt iter blocks warning res
  assume IH: "\<And>parse tenantID nxt iter blocks warning res.
      loop parse tenantID nxt iter blocks warning = Some res \<Longrightarrow> nxt \<noteq> broken_Next err"
    and step: "(case nxt iter of
        None \<Rightarrow> Some (blocks, warning)
      | Some (Entry a, iter') \<Rightarrow>
          (case parse (idString tenantID a) of
             Inl err \<Rightarrow> loop parse tenantID nxt iter' blocks (Some (FailedParse (idString tenantID a) err))
           | Inr blockID \<Rightarrow> loop parse tenantID nxt iter' (blocks @ [blockID]) warning)
      | Some (NextErr err, iter') \<Rightarrow> loop parse tenantID nxt iter' blocks (Some (External err)))
      = Some res"
  show "nxt \<noteq> broken_Next err"
  proof
    assume b: "nxt = broken_Next err"
    show False
    proof (cases iter)
      case Nil
      then have "loop parse tenantID nxt [] blocks (Some (External err)) = Some res"
        using step b by (simp add: broken_Next_def)
      then show ?thesis using IH b by blast
    next
      case (Cons x rest)
      then have "\<exists>blocks' warning'. loop parse tenantID nxt rest blocks' warning' = Some res"
        using step b by (cases x) (auto simp add: broken_Next_def split: sum.splits)
      then show ?thesis using IH b by blast
    qed
  qed
qed

text \<open>
  C6 on a listing whose page fetch fails: the iterator answers the error at every call from
  then on, and neither Tenants nor Blocks returns, whatever entries were read before:
  no list and no warning come back.
\<close>

theorem listings_never_return_on_lasting_error:
  "Tenants (broken_Next err) iter = None \<and> Blocks parse tenantID (broken_Next err) iter = None"
proof -
  have "Tenants (broken_Next err) iter \<noteq> Some res" for res
    using Tenants_loop_broken [of "broken_Next err" iter "[]" None res err]
    by (auto simp add: Tenants_def)
  moreover have "Blocks parse tenantID (broken_Next err) iter \<noteq> Some res" for res
    using Blocks_loop_broken [of parse tenantID "broken_Next err" iter "[]" None res err]
    by (auto simp add: Blocks_def)
  ultimately show ?thesis by (metis not_Some_eq)
qed

lemma parsed_blocks_entries:
  "parsed_blocks parse tenantID (map Entry as)
     = map (\<lambda>a. projr (parse (idString tenantID a))) (filter (parses parse tenantID) as)"
  by (induction as) (auto simp add: parses_def split: sum.splits)

lemma Blocks_failures_entries:
  "Blocks_failures parse tenantID (map Entry as)
     = map (\<lambda>a. FailedParse (idString tenantID a) (projl (parse (idString tenantID a))))
           (filter (\<lambda>a. \<not> parses parse tenantID a) as)"
  by (induction as) (auto simp add: parses_def split: sum.splits)

text \<open>
  C5. For a listing of entries under a tenant prefix of which at least one does not parse
  as a block identifier, Blocks returns the identifiers of exactly the entries that parse,
  those after a parse failure included, together with a warning that carries the text of
  the last entry that did not parse and the parser's error for it.
\<close>

theorem Blocks_skips_unparseable:
  assumes "produces iter_Next iter (map Entry as)"
    and "\<exists>a \<in> set as. \<not> parses parse tenantID a"
  shows "Blocks parse tenantID iter_Next iter
           = Some (map (\<lambda>a. projr (parse (idString tenantID a))) (filter (parses parse tenantID) as),
                   Some (FailedParse (idString tenantID (last (filter (\<lambda>a. \<not> parses parse tenantID a) as)))
                     (projl (parse (idString tenantID (last (filter (\<lambda>a. \<not> parses parse tenantID a) as)))))))
       \<and> length (map (\<lambda>a. projr (parse (idString tenantID a))) (filter (parses parse tenantID) as))
           = length (filter (parses parse tenantID) as)"
proof -
  have ne: "filter (\<lambda>a. \<not> parses parse tenantID a) as \<noteq> []"
    using assms(2) by (simp add: filter_empty_conv)
  show ?thesis
    using ne
    by (simp add: Blocks_def Blocks_loop_produces [OF assms(1)] parsed_blocks_entries
        Blocks_failures_entries last_failure_def last_map)
qed

theorem Blocks_skips_unparseable_witness:
  "produces list_Next (map Entry [dir ''t1/a/'', dir ''t1/not-a-uuid/'', dir ''t1/b/''])
                      (map Entry [dir ''t1/a/'', dir ''t1/not-a-uuid/'', dir ''t1/b/''])
   \<and> (\<exists>a \<in> set [dir ''t1/a/'', dir ''t1/not-a-uuid/'', dir ''t1/b/'']. \<not> parses parse_two ''t1'' a)
   \<and> Blocks parse_two ''t1'' list_Next (map Entry [dir ''t1/a/'', dir ''t1/not-a-uuid/'', dir ''t1/b/''])
       = Some ([10, 11], Some (FailedParse ''not-a-uuid'' (ExtError ''invalid UUID length'')))"
proof -
  have ids: "idString ''t1'' (dir ''t1/a/'') = ''a''"
    "idString ''t1'' (dir ''t1/not-a-uuid/'') = ''not-a-uuid''"
    "idString ''t1'' (dir ''t1/b/'') = ''b''"
    by (simp_all add: idString_def dir_def strings_TrimSuffix_def strings_TrimPrefix_def)
  have p: "produces list_Next (map Entry [dir ''t1/a/'', dir ''t1/not-a-uuid/'', dir ''t1/b/''])
                      (map Entry [dir ''t1/a/'', dir ''t1/not-a-uuid/'', dir ''t1/b/''])"
    by (rule produces_list_Next)
  have h: "\<exists>a \<in> set [dir ''t1/a/'', dir ''t1/not-a-uuid/'', dir ''t1/b/'']. \<not> parses parse_two ''t1'' a"
    by (simp add: parses_def ids parse_two_def)
  show ?thesis
    using p h Blocks_skips_unparseable [OF p h]
    by (simp add: parses_def ids parse_two_def)
qed

end
